theory Spec2Isabelle
  imports Complex_Main
begin

section \<open>Closed-form eigenvalues (diptorch/linalg.py)\<close>

text \<open>
  The tensors of the source hold one real number per pixel, and every operation of
  \<open>linalg.py\<close> (\<open>+\<close>, \<open>*\<close>, \<open>square\<close>, \<open>sqrt\<close>, \<open>clamp\<close>, \<open>arccos\<close>, \<open>cos\<close>)
  acts on each pixel on its own. The functions below are the computation at one pixel,
  over the real numbers; \<open>torch.concat(..., dim=1)\<close> of the per-pixel results is the
  list of the values in channel order.
\<close>

definition clamp_min :: "real \<Rightarrow> real \<Rightarrow> real" where
  "clamp_min x lo = max x lo"

definition clamp :: "real \<Rightarrow> real \<Rightarrow> real \<Rightarrow> real" where
  "clamp x lo hi = min (max x lo) hi"

definition square :: "real \<Rightarrow> real" where
  "square x = x * x"

definition eigvalsh2 :: "real \<Rightarrow> real \<Rightarrow> real \<Rightarrow> real list" where
  "eigvalsh2 ii ij jj =
     (let tr = ii + jj;
          det = ii * jj - square ij;
          disc = sqrt (clamp_min (square tr - 4 * det) 0)
      in map (\<lambda>d. (tr + d) / 2) [- disc, disc])"

definition deth3 :: "real \<Rightarrow> real \<Rightarrow> real \<Rightarrow> real \<Rightarrow> real \<Rightarrow> real \<Rightarrow> real" where
  "deth3 ii ij ik jj jk kk =
     ii * jj * kk + 2 * ij * ik * jk - ii * square jk - jj * square ik - kk * square ij"

definition eigvalsh3 ::
  "real \<Rightarrow> real \<Rightarrow> real \<Rightarrow> real \<Rightarrow> real \<Rightarrow> real \<Rightarrow> real \<Rightarrow> real list" where
  "eigvalsh3 ii ij ik jj jk kk eps =
     (let diag = [ii, jj, kk];
          triu = [ij, ik, jk];
          q = sum_list diag / 3;
          p1 = sum_list (map square triu);
          p2 = sum_list (map (\<lambda>d. square (d - q)) diag);
          p = sqrt ((2 * p1 + p2) / 6);
          r = deth3 (ii - q) ij ik (jj - q) jk (kk - q) / (p ^ 3 + eps) / 2;
          r = clamp r (- 1) 1;
          phi = arccos r / 3;
          eig3 = q + 2 * p * cos phi;
          eig1 = q + 2 * p * cos (phi + 2 * pi / 3);
          eig2 = 3 * q - eig1 - eig3
      in [eig1, eig2, eig3])"

text \<open>The default of the keyword argument \<open>eps\<close> of \<open>eigvalsh3\<close>.\<close>

definition eigvalsh3_eps :: real where
  "eigvalsh3_eps = 1 / 10 ^ 8"

section \<open>Errors and tensors\<close>

text \<open>
  Every \<open>raise\<close> and failed \<open>assert\<close> of the source, and every error raised inside
  a torch call, is a value \<open>Inl e\<close>. \<open>RuntimeError\<close> stands for the errors of torch
  itself (\<open>arange\<close> with bounds against the step sign, a padding larger than the mode
  allows, an unknown padding mode, a kernel longer than its input). \<open>NonFinite\<close> is not an
  exception: it marks a result that torch computes as \<open>nan\<close> or \<open>inf\<close> (a division by
  zero), which has no value among the real numbers.
\<close>

datatype error =
    NotImplementedError
  | AssertionError
  | AttributeError
  | ValueError string
  | RuntimeError
  | NonFinite

definition then_do :: "error + 'a \<Rightarrow> ('a \<Rightarrow> error + 'b) \<Rightarrow> error + 'b" where
  "then_do r f = (case r of Inl e \<Rightarrow> Inl e | Inr x \<Rightarrow> f x)"

definition checked :: "bool \<Rightarrow> 'a \<Rightarrow> error + 'a" where
  "checked is_finite x = (if is_finite then Inr x else Inl NonFinite)"

fun foldM :: "('a \<Rightarrow> 'b \<Rightarrow> error + 'b) \<Rightarrow> 'a list \<Rightarrow> 'b \<Rightarrow> error + 'b" where
  "foldM f [] s = Inr s"
| "foldM f (x # xs) s = then_do (f x s) (foldM f xs)"

fun mapM :: "('a \<Rightarrow> error + 'b) \<Rightarrow> 'a list \<Rightarrow> error + 'b list" where
  "mapM f [] = Inr []"
| "mapM f (x # xs) = then_do (f x) (\<lambda>y. then_do (mapM f xs) (\<lambda>ys. Inr (y # ys)))"

text \<open>
  A tensor of torch shape \<open>[1, 1, *spatial]\<close> is its spatial shape and its value at every
  index list (one batch element and one channel: the convolution weights of the source
  have a single input channel). A tensor of shape \<open>[1, n, *spatial]\<close> that holds an
  \<open>n\<close>-tuple per pixel is a \<open>real list tensor\<close>; a tuple of single-channel tensors (the
  result of \<open>split(1, 1)\<close>) is a list of tensors.
\<close>

record 'a tensor =
  shape :: "nat list"
  val :: "nat list \<Rightarrow> 'a"

definition ndim :: "'a tensor \<Rightarrow> nat" where
  "ndim t = length (shape t) + 2"

fun indices :: "nat list \<Rightarrow> nat list list" where
  "indices [] = [[]]"
| "indices (n # ns) = concat (map (\<lambda>i. map ((#) i) (indices ns)) [0..<n])"

definition tensor_max :: "real tensor \<Rightarrow> real" where
  "tensor_max t = Max (set (map (val t) (indices (shape t))))"

definition zeros_like :: "real tensor \<Rightarrow> real tensor" where
  "zeros_like t = \<lparr>shape = shape t, val = \<lambda>p. 0\<rparr>"

definition maximum :: "real tensor \<Rightarrow> real tensor \<Rightarrow> real tensor" where
  "maximum a b = \<lparr>shape = shape a, val = \<lambda>p. max (val a p) (val b p)\<rparr>"

definition mean :: "real list \<Rightarrow> real" where
  "mean xs = sum_list xs / real (length xs)"

text \<open>\<open>torch.arange(start, stop)\<close> on integers, as a tensor of reals.\<close>

definition arange :: "int \<Rightarrow> int \<Rightarrow> error + real list" where
  "arange start stop =
     (if stop < start then Inl RuntimeError else Inr (map real_of_int [start..stop - 1]))"

text \<open>\<open>torch.arange(start, stop, step)\<close> on reals.\<close>

definition arange_step :: "real \<Rightarrow> real \<Rightarrow> real \<Rightarrow> error + real list" where
  "arange_step start stop step =
     (if step = 0 then Inl RuntimeError
      else if (0 < step \<and> stop < start) \<or> (step < 0 \<and> start < stop) then Inl RuntimeError
      else Inr (map (\<lambda>i. start + real i * step) [0..<nat \<lceil>(stop - start) / step\<rceil>]))"

section \<open>Gaussian kernels and separable convolution (diptorch/filters.py)\<close>

definition gaussian_kernel_1d :: "real \<Rightarrow> int \<Rightarrow> real \<Rightarrow> error + real list" where
  "gaussian_kernel_1d sigma order trunc =
     (let radius = \<lceil>sigma * trunc\<rceil> in
      then_do (arange (- radius) (radius + 1)) (\<lambda>x.
        let var = sigma\<^sup>2;
            g = map (\<lambda>x. exp (- (x\<^sup>2) / (2 * var)) / (sqrt (2 * pi) * sigma)) x
        in if order = 0 then checked (sigma \<noteq> 0) g
           else if order = 1 then
             (let g1 = map2 (\<lambda>g x. g * (- x / var)) g x;
                  g1 = map (\<lambda>v. v - mean g1) g1;
                  d = sum_list (map2 (*) g1 x) / (- 1)
              in checked (sigma \<noteq> 0 \<and> d \<noteq> 0) (map (\<lambda>v. v / d) g1))
           else if order = 2 then
             (let g2 = map2 (\<lambda>g x. g * (x\<^sup>2 / var - 1) / var) g x;
                  g2 = map (\<lambda>v. v - mean g2) g2;
                  d = sum_list (map2 (\<lambda>g x. g * x\<^sup>2) g2 x) / 2
              in checked (sigma \<noteq> 0 \<and> d \<noteq> 0) (map (\<lambda>v. v / d) g2))
           else Inl NotImplementedError))"

text \<open>
  \<open>F.pad(img, pad, mode)\<close>. The list \<open>pad\<close> gives (left, right) for the last axis
  first. \<open>pad_index\<close> is the index of the source element that position \<open>j\<close> of the
  padded axis shows, \<open>None\<close> where the constant mode fills in zero.
\<close>

definition pad_amount :: "nat list \<Rightarrow> nat \<Rightarrow> nat \<Rightarrow> nat \<times> nat" where
  "pad_amount pd k a = (pd ! (2 * (k - 1 - a)), pd ! (2 * (k - 1 - a) + 1))"

definition pad_index :: "string \<Rightarrow> nat \<Rightarrow> nat \<Rightarrow> nat \<Rightarrow> nat option" where
  "pad_index mode n left j =
     (let i = int j - int left in
      if mode = ''constant'' then (if 0 \<le> i \<and> i < int n then Some (nat i) else None)
      else if mode = ''reflect'' then
        Some (nat (if i < 0 then - i else if int n \<le> i then 2 * (int n - 1) - i else i))
      else if mode = ''replicate'' then Some (nat (min (max i 0) (int n - 1)))
      else Some (nat (i mod int n)))"

definition pad :: "real tensor \<Rightarrow> nat list \<Rightarrow> string \<Rightarrow> error + real tensor" where
  "pad img pd mode =
     (let k = length (shape img);
          amounts = map (pad_amount pd k) [0..<k]
      in if mode \<notin> set [''constant'', ''reflect'', ''replicate'', ''circular'']
           then Inl RuntimeError
         else if mode = ''reflect''
             \<and> list_ex (\<lambda>(n, (l, r)). n \<le> l \<or> n \<le> r) (zip (shape img) amounts)
           then Inl RuntimeError
         else if mode = ''circular''
             \<and> list_ex (\<lambda>(n, (l, r)). n < l \<or> n < r) (zip (shape img) amounts)
           then Inl RuntimeError
         else Inr \<lparr>shape = map2 (\<lambda>n (l, r). l + n + r) (shape img) amounts,
                   val = \<lambda>p.
                     (let src = map (\<lambda>a. pad_index mode (shape img ! a) (fst (amounts ! a)) (p ! a))
                                  [0..<k]
                      in if None \<in> set src then 0 else val img (map the src))\<rparr>)"

text \<open>
  \<open>F.conv{n}d(x, weight)\<close> with a one-dimensional kernel viewed along the spatial axis
  \<open>axis\<close>: a cross-correlation without padding.
\<close>

definition convfn :: "real tensor \<Rightarrow> real list \<Rightarrow> nat \<Rightarrow> error + real tensor" where
  "convfn x kern axis =
     (if shape x ! axis < length kern then Inl RuntimeError
      else Inr \<lparr>shape = (shape x)[axis := shape x ! axis - length kern + 1],
                val = \<lambda>p. sum_list (map (\<lambda>k. kern ! k * val x (p[axis := p ! axis + k]))
                                     [0..<length kern])\<rparr>)"

definition conv ::
  "real tensor \<Rightarrow> real \<Rightarrow> int \<Rightarrow> real \<Rightarrow> string \<Rightarrow> nat \<Rightarrow> error + real tensor" where
  "conv img sigma order trunc mode axis =
     then_do (gaussian_kernel_1d sigma order trunc) (\<lambda>kern.
       let padding = length kern div 2;
           pd = replicate (2 * (ndim img - 2)) 0;
           pd = fold (\<lambda>idx pd. pd[idx := padding]) [2 * axis..<2 * axis + 2] pd;
           pd = rev pd
       in then_do (pad img pd mode) (\<lambda>x. convfn x kern axis))"

datatype order_arg = OrderInt int | OrderList "int list"

definition gaussian_filter ::
  "real tensor \<Rightarrow> real \<Rightarrow> order_arg \<Rightarrow> string \<Rightarrow> real \<Rightarrow> error + real tensor" where
  "gaussian_filter img sigma order mode trunc =
     (let nd = ndim img - 2 in
      then_do (case order of
                 OrderInt n \<Rightarrow> Inr (replicate nd n)
               | OrderList os \<Rightarrow> if length os = nd then Inr os else Inl AssertionError)
        (\<lambda>order.
          if nd \<notin> set [1, 2, 3] then Inl AttributeError
          else foldM (\<lambda>(axis, derivative_order) img.
                        conv img sigma derivative_order trunc mode axis)
                 (enumerate 0 order) img))"

section \<open>The Hessian (diptorch/filters.py)\<close>

definition hessian_2d ::
  "real tensor \<Rightarrow> real \<Rightarrow> real \<Rightarrow> string \<Rightarrow> error + real tensor list" where
  "hessian_2d img sigma trunc mode =
     then_do (gaussian_filter img sigma (OrderList [0, 2]) mode trunc) (\<lambda>xx.
     then_do (gaussian_filter img sigma (OrderList [2, 0]) mode trunc) (\<lambda>yy.
     then_do (gaussian_filter img sigma (OrderList [1, 1]) mode trunc) (\<lambda>xy.
     Inr [xx, xy, yy])))"

text \<open>
  \<open>F.conv3d(x, weight, padding, groups=6)\<close>: every channel is padded with zeros by
  \<open>padding\<close> on both sides of each spatial axis and correlated with its own kernel,
  which lies along the spatial axis \<open>axis\<close>.
\<close>

definition conv3d_groups ::
  "real tensor list \<Rightarrow> real list list \<Rightarrow> nat \<Rightarrow> nat list \<Rightarrow> error + real tensor list" where
  "conv3d_groups xs weight axis padding =
     mapM (\<lambda>(x, kern).
             then_do (pad x (concat (map (\<lambda>p. [p, p]) (rev padding))) ''constant'')
               (\<lambda>x. convfn x kern axis))
       (zip xs weight)"

definition hessian_3d ::
  "real tensor \<Rightarrow> real \<Rightarrow> real \<Rightarrow> string \<Rightarrow> error + real tensor list" where
  "hessian_3d img sigma trunc mode =
     then_do (gaussian_kernel_1d sigma 0 trunc) (\<lambda>g0.
     then_do (gaussian_kernel_1d sigma 1 trunc) (\<lambda>g1.
     then_do (gaussian_kernel_1d sigma 2 trunc) (\<lambda>g2.
       let padding = length g0 div 2;
           kx = [g2, g1, g1, g0, g0, g0];
           ky = [g0, g1, g0, g2, g1, g0];
           kz = [g0, g0, g1, g0, g1, g2];
           x = replicate 6 img
       in then_do (conv3d_groups x kx 2 [padding, 0, 0]) (\<lambda>x.
          then_do (conv3d_groups x ky 1 [0, padding, 0]) (\<lambda>x.
          conv3d_groups x kz 0 [0, 0, padding])))))"

fun hessian_as_matrix :: "'a list \<Rightarrow> error + 'a list list" where
  "hessian_as_matrix [xx, xy, yy] = Inr [[xx, xy], [xy, yy]]"
| "hessian_as_matrix [xx, xy, xz, yy, yz, zz] = Inr [[xx, xy, xz], [xy, yy, yz], [xz, yz, zz]]"
| "hessian_as_matrix args = Inl (ValueError ''Invalid number of arguments'')"

datatype hessian_result = Components "real tensor list" | Matrix "real tensor list list"

definition hessian ::
  "real tensor \<Rightarrow> real \<Rightarrow> bool \<Rightarrow> real \<Rightarrow> string \<Rightarrow> error + hessian_result" where
  "hessian img sigma as_matrix trunc mode =
     then_do (if ndim img = 4 then hessian_2d img sigma trunc mode
              else if ndim img = 5 then hessian_3d img sigma trunc mode
              else Inl (ValueError ''img can only be 2D or 3D''))
       (\<lambda>hessian.
          if as_matrix then then_do (hessian_as_matrix hessian) (\<lambda>A. Inr (Matrix A))
          else Inr (Components hessian))"



definition argsort :: "real list \<Rightarrow> nat list" where
  "argsort ks = sort_key (\<lambda>i. ks ! i) [0..<length ks]"

definition take_along_dim :: "'a list \<Rightarrow> nat list \<Rightarrow> 'a list" where
  "take_along_dim xs idx = map (\<lambda>i. xs ! i) idx"

definition sort_by_abs :: "real list tensor \<Rightarrow> real list tensor" where
  "sort_by_abs eig =
     \<lparr>shape = shape eig,
      val = \<lambda>p. take_along_dim (val eig p) (argsort (map abs (val eig p)))\<rparr>"

definition hessian_eigenvalues ::
  "real tensor \<Rightarrow> real \<Rightarrow> real \<Rightarrow> string \<Rightarrow> error + real list tensor" where
  "hessian_eigenvalues img sigma trunc mode =
     then_do (hessian img sigma False trunc mode) (\<lambda>H.
       case H of
         Matrix A \<Rightarrow> Inl (ValueError ''Unrecognized number of upper triangular elements'')
       | Components H \<Rightarrow>
           then_do
             (if length H = 3 then
                Inr \<lparr>shape = shape (H ! 0),
                     val = \<lambda>p. eigvalsh2 (val (H ! 0) p) (val (H ! 1) p) (val (H ! 2) p)\<rparr>
              else if length H = 6 then
                Inr \<lparr>shape = shape (H ! 0),
                     val = \<lambda>p. eigvalsh3 (val (H ! 0) p) (val (H ! 1) p) (val (H ! 2) p)
                                  (val (H ! 3) p) (val (H ! 4) p) (val (H ! 5) p) eigvalsh3_eps\<rparr>
              else Inl (ValueError ''Unrecognized number of upper triangular elements''))
             (\<lambda>eig. Inr (sort_by_abs eig)))"

section \<open>The Frangi filter (diptorch/filters.py)\<close>

text \<open>
  The ratios at one pixel, from its eigenvalues sorted by absolute value. \<open>r_a\<close> is
  \<open>None\<close> where the source sets it to \<open>torch.inf\<close>. Every real is a number, so
  \<open>nan_to_num\<close> leaves it as it is. The divisions are those of the real numbers: the
  ratios and the response below are the source's values where no denominator is zero,
  which \<open>eps > 0\<close> (and, in 3D, \<open>alpha \<noteq> 0\<close>) ensures.
\<close>

definition nan_to_num :: "real \<Rightarrow> real" where
  "nan_to_num x = x"

definition frangi_ratios :: "nat \<Rightarrow> real \<Rightarrow> real list \<Rightarrow> real option \<times> real" where
  "frangi_ratios image_ndim eps eigenvalues =
     (let lambda1 = eigenvalues ! 0;
          floored = map (\<lambda>e. max e eps) (tl eigenvalues)
      in if image_ndim = 4 then
           (let lambda2 = floored ! 0;
                r_a = None;
                r_b = \<bar>lambda1 / lambda2\<bar>;
                r_b = nan_to_num r_b
            in (r_a, r_b))
         else
           (let lambda2 = floored ! 0;
                lambda3 = floored ! 1;
                r_a = Some (lambda2 / lambda3);
                r_b = \<bar>lambda1\<bar> / sqrt (lambda2 * lambda3)
            in (r_a, r_b)))"

text \<open>
  The response at one pixel. For \<open>r_a = torch.inf\<close> the source computes
  \<open>exp(-inf) = 0\<close>, so the first factor is \<open>1 - 0\<close>.
\<close>

definition frangi_response ::
  "real option \<times> real \<Rightarrow> real \<Rightarrow> real \<Rightarrow> real \<Rightarrow> real \<Rightarrow> real \<Rightarrow> real" where
  "frangi_response r s alpha beta gamma_t eps =
     (let (r_a, r_b) = r;
          result = 1 - (case r_a of None \<Rightarrow> 0 | Some r_a \<Rightarrow> exp (- (r_a\<^sup>2) / (2 * alpha\<^sup>2)));
          result = result * exp (- (r_b\<^sup>2) / (2 * beta\<^sup>2 + eps));
          result = result * (1 - exp (- (s\<^sup>2) / (2 * gamma_t\<^sup>2 + eps)))
      in result)"

text \<open>
  One pass of the loop over the sigmas. \<open>he\<close> is the function called for the
  eigenvalues, \<open>hessian_eigenvalues\<close> with its default keyword arguments in \<open>frangi\<close>.
\<close>

definition frangi_step ::
  "(real tensor \<Rightarrow> real \<Rightarrow> error + real list tensor) \<Rightarrow> real tensor \<Rightarrow> real \<Rightarrow> real
     \<Rightarrow> real option \<Rightarrow> real \<Rightarrow> real \<Rightarrow> real tensor \<Rightarrow> error + real tensor" where
  "frangi_step he img alpha beta gamma eps sigma filtered_max =
     then_do (he img sigma) (\<lambda>eigenvalues.
       let eigenvalues = sort_by_abs eigenvalues;
           ratios = (\<lambda>p. frangi_ratios (ndim img) eps (val eigenvalues p));
           s = \<lparr>shape = shape eigenvalues,
                val = \<lambda>p. sqrt (sum_list (map (\<lambda>e. e\<^sup>2) (val eigenvalues p)))\<rparr>;
           gamma_t = (case gamma of
                        None \<Rightarrow> (let g = tensor_max s / 2 in if g = 0 then 1 else g)
                      | Some g \<Rightarrow> g);
           result = \<lparr>shape = shape eigenvalues,
                     val = \<lambda>p. frangi_response (ratios p) (val s p) alpha beta gamma_t eps\<rparr>
       in Inr (maximum filtered_max result))"

definition sigma_message :: string where
  "sigma_message = ''Sigma values must be positive''"

definition frangi_with ::
  "(real tensor \<Rightarrow> real \<Rightarrow> error + real list tensor) \<Rightarrow> real tensor \<Rightarrow> real \<times> real \<Rightarrow> real
     \<Rightarrow> real list option \<Rightarrow> real \<Rightarrow> real \<Rightarrow> real option \<Rightarrow> real \<Rightarrow> error + real tensor" where
  "frangi_with he img sigma_range scale_step sigmas alpha beta gamma eps =
     (if ndim img \<notin> set [4, 5]
        then Inl (ValueError ''input image must be 2D or 3D'')
      else
        then_do (case sigmas of
                   Some sigmas \<Rightarrow> Inr sigmas
                 | None \<Rightarrow> arange_step (fst sigma_range) (snd sigma_range) scale_step)
          (\<lambda>sigmas.
             if list_ex (\<lambda>sigma. sigma < 0) sigmas then Inl (ValueError sigma_message)
             else foldM (frangi_step he img alpha beta gamma eps) sigmas (zeros_like img)))"

definition frangi ::
  "real tensor \<Rightarrow> real \<times> real \<Rightarrow> real \<Rightarrow> real list option \<Rightarrow> real \<Rightarrow> real \<Rightarrow> real option
     \<Rightarrow> real \<Rightarrow> error + real tensor" where
  "frangi = frangi_with (\<lambda>img sigma. hessian_eigenvalues img sigma 4 ''reflect'')"


section \<open>Notions used to state the properties\<close>

text \<open>
  The sample coordinates \<open>x = arange(-radius, radius + 1)\<close> of a kernel, and the base
  Gaussian \<open>g(x) = exp(-x\<^sup>2 / 2 sigma\<^sup>2) / (sigma sqrt(2 pi))\<close>.
\<close>

definition sample_coords :: "int \<Rightarrow> real list" where
  "sample_coords radius = map real_of_int [- radius..radius]"

definition gauss :: "real \<Rightarrow> real \<Rightarrow> real" where
  "gauss sigma x = exp (- (x\<^sup>2) / (2 * sigma\<^sup>2)) / (sqrt (2 * pi) * sigma)"

text \<open>
  The flooring that the specification describes for the 2D branch of \<open>frangi\<close>: the
  magnitude is raised to at least \<open>eps\<close> and the sign is kept.
\<close>

definition floor_magnitude :: "real \<Rightarrow> real \<Rightarrow> real" where
  "floor_magnitude x eps = (if x < 0 then - max \<bar>x\<bar> eps else max \<bar>x\<bar> eps)"

text \<open>
  The sigmas that \<open>frangi\<close> scans: the list \<open>sigmas\<close> when it is given, the range
  \<open>arange(sigma_range[0], sigma_range[1], scale_step)\<close> otherwise.
\<close>

definition frangi_sigmas :: "real \<times> real \<Rightarrow> real \<Rightarrow> real list option \<Rightarrow> error + real list" where
  "frangi_sigmas sigma_range scale_step sigmas =
     (case sigmas of
        Some sigmas \<Rightarrow> Inr sigmas
      | None \<Rightarrow> arange_step (fst sigma_range) (snd sigma_range) scale_step)"

text \<open>
  The value at index \<open>q\<close> of an image padded under \<open>mode\<close> by \<open>amount a\<close> on both sides
  of each axis \<open>a\<close>, and the 2D image used to run the filters on a concrete input.
\<close>

definition padded :: "real tensor \<Rightarrow> string \<Rightarrow> (nat \<Rightarrow> nat) \<Rightarrow> nat list \<Rightarrow> real" where
  "padded img mode amount q =
     (let src = map (\<lambda>a. pad_index mode (shape img ! a) (amount a) (q ! a))
                  [0..<length (shape img)]
      in if None \<in> set src then 0 else val img (map the src))"

definition test_image_2d :: "real tensor" where
  "test_image_2d = \<lparr>shape = [2, 2], val = \<lambda>p. if p = [0, 0] then 1 else 0\<rparr>"

text \<open>
  One channel of a grouped \<open>F.conv3d\<close>: the tensor \<open>x\<close> padded with zeros by \<open>padding\<close>
  and correlated with \<open>kern\<close> along \<open>axis\<close>. \<open>reflect_index\<close> is the source index under
  the reflect mode, and \<open>test_image_3d\<close> the 3D image on which the two ways of computing
  the Hessian are compared.
\<close>

definition zero_pad_conv :: "nat list \<Rightarrow> nat \<Rightarrow> real tensor \<times> real list \<Rightarrow> real tensor" where
  "zero_pad_conv padding axis xk =
     (let x = fst xk; kern = snd xk
      in \<lparr>shape = (map (\<lambda>a. shape x ! a + 2 * padding ! a) [0..<3])
                      [axis := shape x ! axis + 2 * padding ! axis - length kern + 1],
           val = \<lambda>q. sum_list (map (\<lambda>k. kern ! k
                       * padded x ''constant'' (\<lambda>a. padding ! a) (q[axis := q ! axis + k]))
                     [0..<length kern])\<rparr>)"

definition reflect_index :: "nat \<Rightarrow> nat \<Rightarrow> nat \<Rightarrow> nat" where
  "reflect_index n left j = the (pad_index ''reflect'' n left j)"

definition test_image_3d :: "real tensor" where
  "test_image_3d = \<lparr>shape = [2, 2, 3], val = \<lambda>p. if p = [0, 0, 0] then 1 else 0\<rparr>"

section \<open>Properties of the eigenvalue solvers\<close>

text \<open>
  Claim C7. \<open>eigvalsh2\<close> is the closed form \<open>(t - sqrt D) / 2, (t + sqrt D) / 2\<close> with
  \<open>t\<close> the trace, \<open>d\<close> the determinant and \<open>D = max (t\<^sup>2 - 4 d) 0\<close>; the pair is
  ascending by value; \<open>eigvalsh2 2 0 2\<close> is \<open>(2, 2)\<close> and \<open>eigvalsh2 1 0 3\<close> is \<open>(1, 3)\<close>.
\<close>

theorem eigvalsh2_closed_form:
  "eigvalsh2 ii ij jj =
     [((ii + jj) - sqrt (max ((ii + jj)\<^sup>2 - 4 * (ii * jj - ij\<^sup>2)) 0)) / 2,
      ((ii + jj) + sqrt (max ((ii + jj)\<^sup>2 - 4 * (ii * jj - ij\<^sup>2)) 0)) / 2]
   \<and> eigvalsh2 ii ij jj ! 0 \<le> eigvalsh2 ii ij jj ! 1
   \<and> eigvalsh2 2 0 2 = [2, 2]
   \<and> eigvalsh2 1 0 3 = [1, 3]"
proof -
  have form: "eigvalsh2 ii ij jj =
     [((ii + jj) - sqrt (max ((ii + jj)\<^sup>2 - 4 * (ii * jj - ij\<^sup>2)) 0)) / 2,
      ((ii + jj) + sqrt (max ((ii + jj)\<^sup>2 - 4 * (ii * jj - ij\<^sup>2)) 0)) / 2]"
    by (simp add: eigvalsh2_def Let_def clamp_min_def square_def power2_eq_square)
  have "0 \<le> sqrt (max ((ii + jj)\<^sup>2 - 4 * (ii * jj - ij\<^sup>2)) 0)"
    by simp
  then have asc: "eigvalsh2 ii ij jj ! 0 \<le> eigvalsh2 ii ij jj ! 1"
    unfolding form by simp
  have e1: "eigvalsh2 2 0 2 = [2, 2]"
    by (simp add: eigvalsh2_def Let_def clamp_min_def square_def)
  have "sqrt (4::real) = 2"
    using real_sqrt_abs [of 2] by simp
  then have e2: "eigvalsh2 1 0 3 = [1, 3]"
    by (simp add: eigvalsh2_def Let_def clamp_min_def square_def)
  from form asc e1 e2 show ?thesis by blast
qed

text \<open>
  Claim C8. For every real \<open>c\<close>, \<open>eigvalsh3\<close> on the components of \<open>diag(c, c, c)\<close>
  returns \<open>(c, c, c)\<close>, with the guard \<open>eps\<close> added to the cubic term (any non-zero
  \<open>eps\<close>, the default \<open>1e-8\<close> among them).
\<close>

theorem eigvalsh3_scalar_matrix:
  "eps \<noteq> 0 \<Longrightarrow> eigvalsh3 c 0 0 c 0 c eps = [c, c, c]"
  by (simp add: eigvalsh3_def Let_def square_def deth3_def clamp_def)

theorem eigvalsh3_scalar_matrix_witness:
  "eigvalsh3_eps \<noteq> 0 \<and> eigvalsh3 5 0 0 5 0 5 eigvalsh3_eps = [5, 5, 5]"
proof -
  have h: "eigvalsh3_eps \<noteq> 0" by (simp add: eigvalsh3_eps_def)
  show ?thesis using h eigvalsh3_scalar_matrix [OF h, of 5] by simp
qed

text \<open>
  Claim C10. The eigenvalues returned by \<open>eigvalsh2\<close> sum to the trace \<open>ii + jj\<close>, and
  those returned by \<open>eigvalsh3\<close> sum to the trace \<open>ii + jj + kk\<close>, exactly (over the
  real numbers), at every pixel.
\<close>

theorem eigvals_sum_is_trace:
  "sum_list (eigvalsh2 ii ij jj) = ii + jj
   \<and> sum_list (eigvalsh3 ii ij ik jj jk kk eps) = ii + jj + kk"
  by (simp add: eigvalsh2_def eigvalsh3_def Let_def field_simps)

section \<open>Properties of the Gaussian kernels\<close>

lemma arange_radius: "0 \<le> r \<Longrightarrow> arange (- r) (r + 1) = Inr (sample_coords r)"
  by (simp add: arange_def sample_coords_def)

lemma sum_upto_symmetric: "sum_list (map real_of_int [- r..r]) = 0"
proof -
  have "sum_list (map real_of_int [- r..r]) = (\<Sum>k\<in>{- r..r}. real_of_int k)"
    by (simp add: sum_list_distinct_conv_sum_set)
  also have "\<dots> = real_of_int (\<Sum>k\<in>{- r..r}. k)" by simp
  also have "(\<Sum>k\<in>{- r..r}. k) = 0"
  proof -
    have "(\<Sum>k\<in>{- r..r}. k) = (\<Sum>k\<in>{- r..r}. - k)"
      by (rule sum.reindex_bij_witness [of _ uminus uminus]) auto
    also have "\<dots> = - (\<Sum>k\<in>{- r..r}. k)" by (simp add: sum_negf)
    finally show ?thesis by simp
  qed
  finally show ?thesis by simp
qed

lemma map2_map_same: "map2 f (map g xs) xs = map (\<lambda>x. f (g x) x) xs"
  by (induction xs) auto

lemma map2_map_same': "map2 f (map g xs) (map h xs) = map (\<lambda>x. f (g x) (h x)) xs"
  by (induction xs) auto

lemma sum_list_centred:
  "xs \<noteq> [] \<Longrightarrow> sum_list (map (\<lambda>x. h x - mean (map h xs)) xs) = (0::real)"
  by (simp add: mean_def sum_list_subtractf sum_list_triv)

lemma sum_list_divide: "sum_list (map (\<lambda>x. f x / d) xs) = sum_list (map f xs) / (d::real)"
  by (induction xs) (auto simp: add_divide_distrib)

lemma normalised_mean:
  assumes "xs \<noteq> []"
  shows "mean (map (\<lambda>x. (h x - mean (map h xs)) / d) xs) = 0"
proof -
  have "sum_list (map (\<lambda>x. (h x - mean (map h xs)) / d) xs) = 0"
    by (simp only: sum_list_divide sum_list_centred [OF assms] div_0)
  then show ?thesis by (simp add: mean_def)
qed

lemma normalised_moment:
  assumes "d = sum_list (map (\<lambda>x. (h x - m) * w x) xs) / c" and "d \<noteq> 0" and "c \<noteq> 0"
  shows "sum_list (map (\<lambda>x. (h x - m) / d * w x) xs) = (c::real)"
proof -
  have "sum_list (map (\<lambda>x. (h x - m) / d * w x) xs)
      = sum_list (map (\<lambda>x. (h x - m) * w x / d) xs)"
    by (simp add: field_simps)
  also have "\<dots> = sum_list (map (\<lambda>x. (h x - m) * w x) xs) / d"
    by (rule sum_list_divide)
  also have "\<dots> = c" using assms by (simp add: field_simps)
  finally show ?thesis .
qed

lemma sum_list_pos_member:
  assumes "\<And>x. x \<in> set xs \<Longrightarrow> 0 \<le> f x" and "y \<in> set xs" and "0 < f y"
  shows "0 < sum_list (map f xs :: real list)"
  using assms
proof (induction xs)
  case Nil
  then show ?case by simp
next
  case (Cons a xs)
  have nn: "0 \<le> sum_list (map f xs)"
    using Cons.prems(1) by (auto intro!: sum_list_nonneg)
  show ?case
  proof (cases "y = a")
    case True
    with Cons.prems(3) nn show ?thesis by simp
  next
    case False
    with Cons have "0 < sum_list (map f xs)" by auto
    moreover have "0 \<le> f a" using Cons.prems(1) by simp
    ultimately show ?thesis by simp
  qed
qed

lemma first_moment_centred:
  "sum_list (map (\<lambda>x. (h x - m) * x) (sample_coords r)) = sum_list (map (\<lambda>x. h x * x) (sample_coords r))"
proof -
  have "sum_list (map (\<lambda>x. (h x - m) * x) (sample_coords r))
      = sum_list (map (\<lambda>x. h x * x) (sample_coords r)) - m * sum_list (sample_coords r)"
    by (simp add: left_diff_distrib sum_list_subtractf sum_list_const_mult)
  then show ?thesis by (simp add: sample_coords_def sum_upto_symmetric)
qed


lemma gauss_pos: "0 < sigma \<Longrightarrow> 0 < gauss sigma x"
  by (simp add: gauss_def)

lemma sum_list_neg: "sum_list (map (\<lambda>x. - f x) xs) = - sum_list (map f xs :: real list)"
  by (induction xs) auto

lemma order1_divisor_pos:
  assumes "0 < sigma" and "1 \<le> r"
  shows "0 < sum_list (map (\<lambda>x. (gauss sigma x * (- x / sigma\<^sup>2) - m) * x) (sample_coords r)) / (- 1)"
proof -
  have "sum_list (map (\<lambda>x. (gauss sigma x * (- x / sigma\<^sup>2) - m) * x) (sample_coords r)) / (- 1)
      = sum_list (map (\<lambda>x. gauss sigma x * x\<^sup>2 / sigma\<^sup>2) (sample_coords r))"
  proof -
    have "(\<lambda>x. gauss sigma x * (- x / sigma\<^sup>2) * x) = (\<lambda>x. - (gauss sigma x * x\<^sup>2 / sigma\<^sup>2))"
      by (simp add: power2_eq_square mult.assoc)
    then show ?thesis
      unfolding first_moment_centred by (simp only: sum_list_neg)
  qed
  moreover have "0 < sum_list (map (\<lambda>x. gauss sigma x * x\<^sup>2 / sigma\<^sup>2) (sample_coords r))"
  proof (rule sum_list_pos_member [where y = 1])
    show "1 \<in> set (sample_coords r)" using assms(2) 
      by (auto simp: sample_coords_def image_iff intro!: bexI [of _ 1])
    show "0 < gauss sigma 1 * 1\<^sup>2 / sigma\<^sup>2" using assms(1) gauss_pos [of sigma 1] by simp
    show "\<And>x. x \<in> set (sample_coords r) \<Longrightarrow> 0 \<le> gauss sigma x * x\<^sup>2 / sigma\<^sup>2"
      using assms(1) gauss_pos [of sigma] by (simp add: less_imp_le)
  qed
  ultimately show ?thesis by simp
qed


lemma radius_pos: "0 < sigma \<Longrightarrow> 0 < trunc \<Longrightarrow> 1 \<le> \<lceil>sigma * trunc :: real\<rceil>"
  by (simp add: ceiling_le_iff less_ceiling_iff[symmetric] )

lemma sample_coords_nonempty: "0 \<le> r \<Longrightarrow> sample_coords r \<noteq> []"
  by (simp add: sample_coords_def)

lemma gauss_expand:
  "gauss sigma = (\<lambda>x. exp (- (x\<^sup>2 / (2 * sigma\<^sup>2))) / (sqrt (2 * pi) * sigma))"
  by (simp add: gauss_def fun_eq_iff)

lemma kernel_order0:
  assumes "0 \<le> \<lceil>sigma * trunc\<rceil>"
  shows "gaussian_kernel_1d sigma 0 trunc
       = checked (sigma \<noteq> 0) (map (gauss sigma) (sample_coords \<lceil>sigma * trunc\<rceil>))"
  using assms
  by (simp add: gaussian_kernel_1d_def Let_def arange_radius then_do_def gauss_expand)

lemma kernel_order1:
  assumes "0 \<le> \<lceil>sigma * trunc\<rceil>"
  shows "gaussian_kernel_1d sigma 1 trunc =
     (let xs = sample_coords \<lceil>sigma * trunc\<rceil>;
          h = (\<lambda>x. gauss sigma x * (- x / sigma\<^sup>2));
          m = mean (map h xs);
          d = sum_list (map (\<lambda>x. (h x - m) * x) xs) / (- 1)
      in checked (sigma \<noteq> 0 \<and> d \<noteq> 0) (map (\<lambda>x. (h x - m) / d) xs))"
  using assms
  by (simp add: gaussian_kernel_1d_def Let_def arange_radius then_do_def gauss_expand
      map2_map_same zip_map1 zip_same_conv_map o_def split_def)

lemma kernel_order2:
  assumes "0 \<le> \<lceil>sigma * trunc\<rceil>"
  shows "gaussian_kernel_1d sigma 2 trunc =
     (let xs = sample_coords \<lceil>sigma * trunc\<rceil>;
          h = (\<lambda>x. gauss sigma x * (x\<^sup>2 / sigma\<^sup>2 - 1) / sigma\<^sup>2);
          m = mean (map h xs);
          d = sum_list (map (\<lambda>x. (h x - m) * x\<^sup>2) xs) / 2
      in checked (sigma \<noteq> 0 \<and> d \<noteq> 0) (map (\<lambda>x. (h x - m) / d) xs))"
  using assms
  by (simp add: gaussian_kernel_1d_def Let_def arange_radius then_do_def gauss_expand
      map2_map_same zip_map1 zip_same_conv_map o_def split_def)


lemma sample_coords_1: "sample_coords 1 = [- 1, 0, 1]"
proof -
  have "[- 1..1::int] = [- 1, 0, 1]" by code_simp
  then show ?thesis by (simp add: sample_coords_def)
qed

lemma sample_coords_0: "sample_coords 0 = [0]"
  by (simp add: sample_coords_def)

lemma gauss_even: "gauss sigma (- x) = gauss sigma x"
  by (simp add: gauss_def)

lemma kernel1_radius1:
  assumes "0 < sigma" and "\<lceil>sigma * trunc\<rceil> = 1"
  shows "gaussian_kernel_1d sigma 1 trunc = Inr [1 / 2, 0, - 1 / 2]"
proof -
  have a: "0 < gauss sigma 1" using assms(1) by (rule gauss_pos)
  have s: "sigma \<noteq> 0" "0 < sigma\<^sup>2" using assms(1) by simp_all
  show ?thesis
    using a s
    by (simp add: kernel_order1 assms(2) sample_coords_1 Let_def mean_def gauss_even checked_def
        field_simps)
qed

lemma kernel2_radius1:
  assumes "0 < sigma" and "\<lceil>sigma * trunc\<rceil> = 1"
  shows "gaussian_kernel_1d sigma 2 trunc = Inr [1, - 2, 1]"
proof -
  define a where "a = gauss sigma 1"
  define b where "b = gauss sigma 0"
  define t where "t = 1 / sigma\<^sup>2"
  have t: "0 < t" using assms(1) by (simp add: t_def)
  have b: "0 < b" unfolding b_def using assms(1) by (rule gauss_pos)
  have ab: "a = b * exp (- t / 2)"
    by (simp add: a_def b_def t_def gauss_def)
  have "0 < exp (- t / 2) * (t - 1) + 1"
  proof (cases "1 \<le> t")
    case True
    then have "0 \<le> exp (- t / 2) * (t - 1)" by simp
    then show ?thesis by linarith
  next
    case False
    then have "t - 1 < 0" by simp
    moreover have "exp (- t / 2) \<le> 1" using t by simp
    ultimately have "(1 - exp (- t / 2)) * (t - 1) \<le> 0"
      by (intro mult_nonneg_nonpos) simp_all
    then have "t - 1 \<le> exp (- t / 2) * (t - 1)"
      by (simp add: algebra_simps)
    with t show ?thesis by linarith
  qed
  then have "0 < b * (exp (- t / 2) * (t - 1) + 1)"
    using b by (rule mult_pos_pos [rotated])
  then have pos: "0 < a * (t - 1) + b"
    by (simp add: ab algebra_simps)
  define xs where "xs = sample_coords 1"
  define h where "h = (\<lambda>x. gauss sigma x * (x\<^sup>2 / sigma\<^sup>2 - 1) / sigma\<^sup>2)"
  have h1: "h 1 = a * (t - 1) * t" "h (- 1) = a * (t - 1) * t" "h 0 = - b * t"
    by (simp_all add: h_def a_def b_def t_def gauss_even)
  define m where "m = mean (map h xs)"
  have m: "m = (2 * a * (t - 1) * t - b * t) / 3"
    by (simp add: m_def xs_def sample_coords_1 mean_def h1)
  define d where "d = sum_list (map (\<lambda>x. (h x - m) * x\<^sup>2) xs) / 2"
  have d: "d = (a * (t - 1) + b) * t / 3"
    by (simp add: d_def xs_def sample_coords_1 h1 m field_simps)
  have d0: "d \<noteq> 0" using pos t unfolding d by simp
  have k: "map (\<lambda>x. (h x - m) / d) xs = [1, - 2, 1]"
  proof -
    have "h 1 - m = d" "h 0 - m = - 2 * d"
      by (simp_all add: h1 m d field_simps)
    then show ?thesis using d0 by (simp add: xs_def sample_coords_1 h1)
  qed
  have "gaussian_kernel_1d sigma 2 trunc = checked (sigma \<noteq> 0 \<and> d \<noteq> 0) (map (\<lambda>x. (h x - m) / d) xs)"
    by (simp add: kernel_order2 assms(2) Let_def d_def m_def h_def xs_def)
  then show ?thesis using d0 assms(1) by (simp add: checked_def k)
qed

text \<open>
  The moments of the kernels for \<open>sigma > 0\<close> and \<open>truncate > 0\<close> (so that the radius is at
  least 1). The kernel of order 1 exists, has zero mean and its first moment against the
  sample coordinates is exactly \<open>-1\<close>. The kernel of order 2 has zero mean and second
  moment exactly \<open>2\<close> whenever its normalising divisor is not zero; that the divisor is not
  zero is shown above for radius 1 only. The kernel of order 0 is the sampled Gaussian
  itself, without a normalisation of its sum.
\<close>

lemma kernel_moments:
  assumes "0 < sigma" and "0 < trunc"
  shows "(\<exists>k. gaussian_kernel_1d sigma 1 trunc = Inr k \<and> mean k = 0
            \<and> sum_list (map2 (\<lambda>c x. c * x) k (sample_coords \<lceil>sigma * trunc\<rceil>)) = - 1)
       \<and> (\<forall>k. gaussian_kernel_1d sigma 2 trunc = Inr k \<longrightarrow> mean k = 0
            \<and> sum_list (map2 (\<lambda>c x. c * x\<^sup>2) k (sample_coords \<lceil>sigma * trunc\<rceil>)) = 2)
       \<and> gaussian_kernel_1d sigma 0 trunc
            = Inr (map (gauss sigma) (sample_coords \<lceil>sigma * trunc\<rceil>))"
proof -
  define r where "r = \<lceil>sigma * trunc\<rceil>"
  define xs where "xs = sample_coords r"
  have r1: "1 \<le> r" unfolding r_def using assms by (rule radius_pos)
  then have r0: "0 \<le> r" by simp
  have ne: "xs \<noteq> []" unfolding xs_def using r0 by (rule sample_coords_nonempty)
  have s0: "sigma \<noteq> 0" using assms(1) by simp
  \<comment> \<open>order 1\<close>
  define h1 where "h1 = (\<lambda>x. gauss sigma x * (- x / sigma\<^sup>2))"
  define m1 where "m1 = mean (map h1 xs)"
  define d1 where "d1 = sum_list (map (\<lambda>x. (h1 x - m1) * x) xs) / (- 1)"
  have d1: "d1 \<noteq> 0"
    using order1_divisor_pos [OF assms(1) r1, of m1] by (simp add: d1_def h1_def xs_def)
  have k1: "gaussian_kernel_1d sigma 1 trunc = Inr (map (\<lambda>x. (h1 x - m1) / d1) xs)"
    using r0 d1 s0 unfolding r_def
    by (simp add: kernel_order1 Let_def checked_def d1_def m1_def h1_def xs_def r_def)
  have mean1: "mean (map (\<lambda>x. (h1 x - m1) / d1) xs) = 0"
    unfolding m1_def using ne by (rule normalised_mean)
  have mom1: "sum_list (map2 (\<lambda>c x. c * x) (map (\<lambda>x. (h1 x - m1) / d1) xs) xs) = - 1"
    unfolding map2_map_same
    by (rule normalised_moment [where w = "\<lambda>x. x", OF d1_def d1]) simp
  \<comment> \<open>order 2\<close>
  define h2 where "h2 = (\<lambda>x. gauss sigma x * (x\<^sup>2 / sigma\<^sup>2 - 1) / sigma\<^sup>2)"
  define m2 where "m2 = mean (map h2 xs)"
  define d2 where "d2 = sum_list (map (\<lambda>x. (h2 x - m2) * x\<^sup>2) xs) / 2"
  have k2: "gaussian_kernel_1d sigma 2 trunc
          = checked (sigma \<noteq> 0 \<and> d2 \<noteq> 0) (map (\<lambda>x. (h2 x - m2) / d2) xs)"
    using r0 unfolding r_def
    by (simp add: kernel_order2 Let_def d2_def m2_def h2_def xs_def r_def)
  have order2: "mean k = 0 \<and> sum_list (map2 (\<lambda>c x. c * x\<^sup>2) k xs) = 2"
    if "gaussian_kernel_1d sigma 2 trunc = Inr k" for k
  proof -
    from that k2 have d2: "d2 \<noteq> 0" and k: "k = map (\<lambda>x. (h2 x - m2) / d2) xs"
      by (auto simp: checked_def split: if_splits)
    have "mean k = 0"
      unfolding k m2_def using ne by (rule normalised_mean)
    moreover have "sum_list (map2 (\<lambda>c x. c * x\<^sup>2) k xs) = 2"
      unfolding k map2_map_same
      by (rule normalised_moment [where w = "\<lambda>x. x\<^sup>2", OF d2_def d2]) simp
    ultimately show ?thesis ..
  qed
  have k0: "gaussian_kernel_1d sigma 0 trunc = Inr (map (gauss sigma) xs)"
    using r0 s0 unfolding r_def by (simp add: kernel_order0 checked_def xs_def r_def)
  from k1 mean1 mom1 order2 k0 show ?thesis
    unfolding xs_def r_def by blast
qed

lemma kernel_moments_radius1:
  "(0::real) < 1 \<and> gaussian_kernel_1d 1 2 1 = Inr [1, - 2, 1]
   \<and> mean [1, - 2, 1] = 0
   \<and> sum_list (map2 (\<lambda>c x. c * x\<^sup>2) [1, - 2, 1] (sample_coords \<lceil>1 * 1 :: real\<rceil>)) = 2
   \<and> (\<exists>k. gaussian_kernel_1d 1 1 1 = Inr k \<and> mean k = 0
         \<and> sum_list (map2 (\<lambda>c x. c * x) k (sample_coords \<lceil>1 * 1 :: real\<rceil>)) = - 1)"
proof -
  have h: "(0::real) < 1" by simp
  have k: "gaussian_kernel_1d 1 2 1 = Inr [1, - 2, 1]"
    by (rule kernel2_radius1) simp_all
  from kernel_moments [OF h h] k h show ?thesis by blast
qed

text \<open>
  At \<open>truncate = 0\<close> the radius is 0: the kernels of order 1 and 2 are divisions of zero
  by zero, and the kernel of order 0 is the single coefficient \<open>1 / sqrt(2 pi)\<close>, which is
  at most \<open>1 / 2\<close>. At \<open>sigma = 1 / 4\<close> and \<open>truncate = 4\<close> the kernel of order 0 sums to
  more than \<open>4 / 3\<close>.
\<close>

lemma kernel_truncate_zero:
  "gaussian_kernel_1d 1 1 0 = Inl NonFinite
   \<and> gaussian_kernel_1d 1 2 0 = Inl NonFinite
   \<and> (\<exists>k. gaussian_kernel_1d 1 0 0 = Inr k \<and> sum_list k \<le> 1 / 2)"
proof -
  have "2 \<le> sqrt (2 * pi)"
    using pi_ge_two by (intro real_le_rsqrt) simp
  then have "1 / sqrt (2 * pi) \<le> 1 / 2"
    by (simp add: field_simps)
  then show ?thesis
    by (simp add: kernel_order0 kernel_order1 kernel_order2 sample_coords_0 Let_def mean_def
        checked_def gauss_def)
qed

lemma kernel0_radius1:
  assumes "0 < sigma" and "\<lceil>sigma * trunc\<rceil> = 1"
  shows "gaussian_kernel_1d sigma 0 trunc = Inr [gauss sigma 1, gauss sigma 0, gauss sigma 1]"
  using assms(1) by (simp add: kernel_order0 assms(2) sample_coords_1 checked_def gauss_even)

lemma kernel_order0_sum_quarter:
  "\<exists>k. gaussian_kernel_1d (1 / 4) 0 4 = Inr k \<and> 4 / 3 < sum_list k"
proof -
  have k: "gaussian_kernel_1d (1 / 4) 0 4
         = Inr [gauss (1 / 4) 1, gauss (1 / 4) 0, gauss (1 / 4) 1]"
    by (rule kernel0_radius1) simp_all
  have "sqrt (2 * pi) < 3"
    using pi_less_4 by (intro real_less_lsqrt) simp_all
  then have "4 / 3 < 4 / sqrt (2 * pi)"
    by (simp add: field_simps)
  moreover have "gauss (1 / 4) 0 = 4 / sqrt (2 * pi)"
    by (simp add: gauss_def)
  moreover have "0 < gauss (1 / 4) 1"
    by (rule gauss_pos) simp
  ultimately show ?thesis
    unfolding k by simp
qed

section \<open>Properties of the Frangi filter\<close>

text \<open>
  Claim C2, as the code has it. In the 2D branch the ratio \<open>Rb\<close> at a pixel is
  \<open>|lambda1 / max(lambda2, eps)|\<close>: \<open>lambda2\<close> is floored by value, so a negative
  \<open>lambda2\<close> is replaced by \<open>eps\<close>; and the \<open>Ra\<close> factor of the response is 1.
\<close>

theorem frangi_2d_ratios:
  "frangi_ratios 4 eps [lambda1, lambda2] = (None, \<bar>lambda1 / max lambda2 eps\<bar>)
   \<and> frangi_response (None, r_b) s alpha beta gamma_t eps
       = 1 * exp (- (r_b\<^sup>2) / (2 * beta\<^sup>2 + eps)) * (1 - exp (- (s\<^sup>2) / (2 * gamma_t\<^sup>2 + eps)))"
  by (simp add: frangi_ratios_def frangi_response_def nan_to_num_def Let_def)

text \<open>
  Claim C2 as stated fails for a negative \<open>lambda2\<close>: with \<open>lambda1 = 1\<close>,
  \<open>lambda2 = -2\<close> and \<open>eps = 1e-10\<close> the code computes \<open>Rb = 1e10\<close>, not
  \<open>|1 / (-2)|\<close>.
\<close>

theorem frangi_2d_ratio_counterexample:
  "snd (frangi_ratios 4 (1 / 10 ^ 10) [1, - 2]) \<noteq> \<bar>1 / floor_magnitude (- 2) (1 / 10 ^ 10)\<bar>"
  by (simp add: frangi_ratios_def floor_magnitude_def nan_to_num_def Let_def)

section \<open>Validation of the sigmas\<close>

lemma then_do_Inl: "then_do r f = Inl e \<longleftrightarrow> r = Inl e \<or> (\<exists>x. r = Inr x \<and> f x = Inl e)"
  by (cases r) (simp_all add: then_do_def)

lemma foldM_error:
  assumes "\<And>x s. f x s \<noteq> Inl e"
  shows "foldM f xs s \<noteq> Inl e"
  using assms by (induction xs arbitrary: s) (auto simp: then_do_Inl)

lemma mapM_error:
  assumes "\<And>x. f x \<noteq> Inl e"
  shows "mapM f xs \<noteq> Inl e"
  using assms by (induction xs) (auto simp: then_do_Inl)

lemma kernel_no_ValueError: "gaussian_kernel_1d sigma order trunc \<noteq> Inl (ValueError m)"
  by (auto simp: gaussian_kernel_1d_def Let_def then_do_Inl arange_def checked_def)

lemma pad_no_ValueError: "pad img pd mode \<noteq> Inl (ValueError m)"
  by (auto simp: pad_def Let_def)

lemma convfn_no_ValueError: "convfn x kern axis \<noteq> Inl (ValueError m)"
  by (auto simp: convfn_def)

lemma conv_no_ValueError: "conv img sigma order trunc mode axis \<noteq> Inl (ValueError m)"
  by (auto simp: conv_def Let_def then_do_Inl kernel_no_ValueError pad_no_ValueError
      convfn_no_ValueError)

lemma gaussian_filter_no_ValueError:
  "gaussian_filter img sigma order mode trunc \<noteq> Inl (ValueError m)"
  by (auto simp: gaussian_filter_def Let_def then_do_Inl split_def
      intro!: foldM_error conv_no_ValueError split: order_arg.splits if_splits)

lemma hessian_2d_no_ValueError: "hessian_2d img sigma trunc mode \<noteq> Inl (ValueError m)"
  by (auto simp: hessian_2d_def then_do_Inl gaussian_filter_no_ValueError)

lemma conv3d_groups_no_ValueError: "conv3d_groups xs weight axis padding \<noteq> Inl (ValueError m)"
  unfolding conv3d_groups_def
  by (rule mapM_error)
     (auto simp: then_do_Inl pad_no_ValueError convfn_no_ValueError split_def)

lemma hessian_3d_no_ValueError: "hessian_3d img sigma trunc mode \<noteq> Inl (ValueError m)"
  by (auto simp: hessian_3d_def Let_def then_do_Inl kernel_no_ValueError
      conv3d_groups_no_ValueError)

lemma hessian_eigenvalues_no_sigma_error:
  "hessian_eigenvalues img sigma trunc mode \<noteq> Inl (ValueError sigma_message)"
  by (auto simp: hessian_eigenvalues_def hessian_def then_do_Inl sigma_message_def
      hessian_2d_no_ValueError hessian_3d_no_ValueError
      split: hessian_result.splits if_splits)

lemma frangi_step_no_sigma_error:
  "frangi_step (\<lambda>img sigma. hessian_eigenvalues img sigma 4 ''reflect'')
     img alpha beta gamma eps sigma fm \<noteq> Inl (ValueError sigma_message)"
  by (auto simp: frangi_step_def then_do_Inl Let_def hessian_eigenvalues_no_sigma_error)

text \<open>
  Claim C9. For an image of rank 4 or 5 and a scale specification that gives the sigmas
  \<open>ss\<close>, \<open>frangi\<close> raises the error of the sigma check exactly when some sigma is
  negative (zero is accepted); and then it raises it whatever the function \<open>he\<close> that
  computes the Hessian eigenvalues would do, that is before any convolution or
  eigenvalue computation.
\<close>

theorem frangi_sigma_validation:
  assumes "ndim img = 4 \<or> ndim img = 5"
    and "frangi_sigmas sigma_range scale_step sigmas = Inr ss"
  shows "(frangi img sigma_range scale_step sigmas alpha beta gamma eps
            = Inl (ValueError sigma_message)) = (\<exists>sigma. sigma \<in> set ss \<and> sigma < 0)
       \<and> ((\<exists>sigma. sigma \<in> set ss \<and> sigma < 0) = 
            (\<forall>he. frangi_with he img sigma_range scale_step sigmas alpha beta gamma eps
                   = Inl (ValueError sigma_message)))"
proof -
  have neg: "frangi_with he img sigma_range scale_step sigmas alpha beta gamma eps
               = Inl (ValueError sigma_message)"
    if "\<exists>sigma. sigma \<in> set ss \<and> sigma < 0" for he
    using that assms
    by (auto simp: frangi_with_def frangi_sigmas_def then_do_def list_ex_iff)
  have nonneg: "frangi img sigma_range scale_step sigmas alpha beta gamma eps
               \<noteq> Inl (ValueError sigma_message)"
    if "\<not> (\<exists>sigma. sigma \<in> set ss \<and> sigma < 0)"
  proof -
    from that have "\<not> list_ex (\<lambda>sigma. sigma < 0) ss" by (auto simp: list_ex_iff)
    then show ?thesis
      using assms frangi_step_no_sigma_error
      by (auto simp: frangi_def frangi_with_def frangi_sigmas_def then_do_def
          intro!: foldM_error)
  qed
  from neg nonneg show ?thesis
    unfolding frangi_def by blast
qed

theorem frangi_sigma_validation_witness:
  "frangi \<lparr>shape = [2, 2], val = \<lambda>p. 0\<rparr> (1, 10) 2 (Some [1, - 1]) (1 / 2) (1 / 2) None (1 / 10 ^ 10)
     = Inl (ValueError sigma_message)
   \<and> frangi \<lparr>shape = [2, 2], val = \<lambda>p. 0\<rparr> (1, 10) 2 (Some [0]) (1 / 2) (1 / 2) None (1 / 10 ^ 10)
     \<noteq> Inl (ValueError sigma_message)"
proof -
  have n: "ndim \<lparr>shape = [2, 2], val = \<lambda>p. 0 :: real\<rparr> = 4 \<or> ndim \<lparr>shape = [2, 2], val = \<lambda>p. 0 :: real\<rparr> = 5"
    by (simp add: ndim_def)
  have a: "frangi_sigmas (1, 10) 2 (Some [1, - 1]) = Inr [1, - 1]"
    by (simp add: frangi_sigmas_def)
  have b: "frangi_sigmas (1, 10) 2 (Some [0]) = Inr [0]"
    by (simp add: frangi_sigmas_def)
  have ex: "\<exists>sigma. sigma \<in> set [1, - 1] \<and> sigma < (0::real)"
    by (rule exI [of _ "- 1"]) simp
  have nex: "\<not> (\<exists>sigma. sigma \<in> set [0] \<and> sigma < (0::real))"
    by simp
  show ?thesis
    using frangi_sigma_validation [OF n a, of "1 / 2" "1 / 2" None "1 / 10 ^ 10"]
      frangi_sigma_validation [OF n b, of "1 / 2" "1 / 2" None "1 / 10 ^ 10"] ex nex
    by blast
qed

section \<open>Padding and convolution along one axis\<close>

lemma then_do_Inr: "then_do r f = Inr y \<longleftrightarrow> (\<exists>x. r = Inr x \<and> f x = Inr y)"
  by (cases r) (simp_all add: then_do_def)

lemma foldM_invariant:
  assumes "\<And>x s s'. f x s = Inr s' \<Longrightarrow> P s \<Longrightarrow> P s'"
  shows "P s \<Longrightarrow> foldM f xs s = Inr s' \<Longrightarrow> P s'"
proof (induction xs arbitrary: s)
  case Nil
  then show ?case by simp
next
  case (Cons x xs)
  from Cons.prems(2) obtain s1 where s1: "f x s = Inr s1" and rest: "foldM f xs s1 = Inr s'"
    by (auto simp: then_do_Inr)
  from assms [OF s1 Cons.prems(1)] have "P s1" .
  from Cons.IH [OF this rest] show ?case .
qed

lemma foldM_append: "foldM f (xs @ ys) s = then_do (foldM f xs s) (foldM f ys)"
  by (induction xs arbitrary: s) (auto simp: then_do_def split: sum.splits)

lemma foldM_ok:
  assumes "P s" and "\<And>x s. x \<in> set xs \<Longrightarrow> P s \<Longrightarrow> \<exists>s'. f x s = Inr s' \<and> P s'"
  shows "\<exists>s'. foldM f xs s = Inr s' \<and> P s'"
  using assms
proof (induction xs arbitrary: s)
  case Nil
  then show ?case by simp
next
  case (Cons x xs)
  from Cons.prems(2) [of x s] Cons.prems(1) obtain s1 where s1: "f x s = Inr s1" "P s1"
    by auto
  from Cons.IH [OF s1(2)] Cons.prems(2) obtain s' where "foldM f xs s1 = Inr s'" "P s'"
    by auto
  with s1 show ?case by (auto simp: then_do_def)
qed


lemma kernel_radius1:
  assumes "0 < sigma" and "\<lceil>sigma * trunc\<rceil> = 1" and "order \<in> {0, 1, 2}"
  shows "\<exists>kern. gaussian_kernel_1d sigma order trunc = Inr kern \<and> length kern = 2 * 1 + 1"
  using assms kernel0_radius1 [OF assms(1,2)] kernel1_radius1 [OF assms(1,2)]
    kernel2_radius1 [OF assms(1,2)]
  by auto

lemma upt_pair: "[2 * axis..<2 * axis + 2] = [2 * axis, Suc (2 * axis)]"
proof -
  have "[2 * axis..<Suc (Suc (2 * axis))] = [2 * axis, Suc (2 * axis)]"
    by (simp add: upt_conv_Cons)
  then show ?thesis by simp
qed

lemma conv_amount:
  assumes "axis < k" and "a < k"
  shows "pad_amount (rev (fold (\<lambda>idx pd. pd[idx := p]) [2 * axis..<2 * axis + 2]
                             (replicate (2 * k) 0))) k a
       = (if a = axis then (p, p) else (0, 0))"
proof -
  define pd0 where "pd0 = (replicate (2 * k) (0::nat))[2 * axis := p, Suc (2 * axis) := p]"
  have len: "length pd0 = 2 * k" by (simp add: pd0_def)
  have fold: "fold (\<lambda>idx pd. pd[idx := p]) [2 * axis..<2 * axis + 2] (replicate (2 * k) 0) = pd0"
    by (simp only: upt_pair pd0_def fold_simps)
  have j1: "2 * (k - 1 - a) < 2 * k" and j2: "2 * (k - 1 - a) + 1 < 2 * k"
    using assms(2) by arith+
  have e1: "2 * k - Suc (2 * (k - 1 - a)) = Suc (2 * a)"
    using assms(2) by arith
  have e2: "2 * k - Suc (2 * (k - 1 - a) + 1) = 2 * a"
    using assms(2) by arith
  have r1: "rev pd0 ! (2 * (k - 1 - a)) = pd0 ! Suc (2 * a)"
    using j1 by (simp only: rev_nth len e1)
  have r2: "rev pd0 ! (2 * (k - 1 - a) + 1) = pd0 ! (2 * a)"
    using j2 by (simp only: rev_nth len e2)
  have i1: "Suc (2 * a) < 2 * k" "2 * a < 2 * k" "Suc (2 * axis) < 2 * k" "2 * axis < 2 * k"
    using assms by arith+
  have v1: "pd0 ! Suc (2 * a) = (if a = axis then p else 0)"
    using i1 by (simp add: pd0_def nth_list_update)
  have v2: "pd0 ! (2 * a) = (if a = axis then p else 0)"
    using i1 by (simp add: pd0_def nth_list_update)
  show ?thesis
    unfolding fold pad_amount_def r1 r2 v1 v2 by simp
qed

lemma conv_amounts:
  assumes "axis < k"
  shows "map (pad_amount (rev (fold (\<lambda>idx pd. pd[idx := p]) [2 * axis..<2 * axis + 2]
                                  (replicate (2 * k) 0))) k) [0..<k]
       = map (\<lambda>a. if a = axis then (p, p) else (0, 0)) [0..<k]"
proof (rule map_cong [OF refl])
  fix a assume "a \<in> set [0..<k]"
  then have "a < k" by simp
  from conv_amount [OF assms this]
  show "pad_amount (rev (fold (\<lambda>idx pd. pd[idx := p]) [2 * axis..<2 * axis + 2]
                             (replicate (2 * k) 0))) k a
       = (if a = axis then (p, p) else (0, 0))" .
qed

lemma pad_eq:
  assumes amounts: "map (pad_amount pd (length (shape img))) [0..<length (shape img)]
                      = map (\<lambda>a. (amount a, amount a)) [0..<length (shape img)]"
    and mode: "mode \<in> set [''constant'', ''reflect'', ''replicate'', ''circular'']"
    and refl: "mode = ''reflect'' \<Longrightarrow> \<forall>a < length (shape img). amount a < shape img ! a"
    and circ: "mode = ''circular'' \<Longrightarrow> \<forall>a < length (shape img). amount a \<le> shape img ! a"
  shows "pad img pd mode
       = Inr \<lparr>shape = map (\<lambda>a. shape img ! a + 2 * amount a) [0..<length (shape img)],
              val = padded img mode amount\<rparr>"
proof -
  define k where "k = length (shape img)"
  define am where "am = map (\<lambda>a. (amount a, amount a)) [0..<k]"
  have z: "zip (shape img) am = map (\<lambda>a. (shape img ! a, (amount a, amount a))) [0..<k]"
    unfolding am_def k_def
    by (rule nth_equalityI) simp_all
  have c1: "\<not> (mode = ''reflect'' \<and> list_ex (\<lambda>(n, (l, r)). n \<le> l \<or> n \<le> r) (zip (shape img) am))"
    using refl unfolding z by (fastforce simp: list_ex_iff k_def not_le [symmetric])
  have c2: "\<not> (mode = ''circular'' \<and> list_ex (\<lambda>(n, (l, r)). n < l \<or> n < r) (zip (shape img) am))"
    using circ unfolding z by (fastforce simp: list_ex_iff k_def not_less [symmetric])
  have sh: "map2 (\<lambda>n (l, r). l + n + r) (shape img) am
          = map (\<lambda>a. shape img ! a + 2 * amount a) [0..<k]"
    unfolding z by simp
  have src: "map (\<lambda>a. pad_index mode (shape img ! a) (fst (am ! a)) (p ! a)) [0..<k]
           = map (\<lambda>a. pad_index mode (shape img ! a) (amount a) (p ! a)) [0..<k]" for p
    by (rule map_cong) (simp_all add: am_def)
  have v: "(\<lambda>p. if None \<in> set (map (\<lambda>a. pad_index mode (shape img ! a) (fst (am ! a)) (p ! a)) [0..<k])
               then 0
               else val img (map the (map (\<lambda>a. pad_index mode (shape img ! a) (fst (am ! a)) (p ! a)) [0..<k])))
         = padded img mode amount"
    by (rule ext) (simp only: padded_def Let_def k_def [symmetric] src)
  show ?thesis
    unfolding pad_def Let_def amounts
    unfolding k_def [symmetric] am_def [symmetric]
    using c1 c2 mode by (simp only: sh v if_False if_True not_True_eq_False)
qed

lemma conv_eq:
  assumes kern: "gaussian_kernel_1d sigma order trunc = Inr kern"
    and len: "length kern = 2 * r + 1"
    and ax: "axis < length (shape img)"
    and pos: "0 < shape img ! axis"
    and mode: "mode \<in> set [''constant'', ''reflect'', ''replicate'', ''circular'']"
    and refl: "mode = ''reflect'' \<Longrightarrow> r < shape img ! axis \<and> (\<forall>a < length (shape img). 0 < shape img ! a)"
    and circ: "mode = ''circular'' \<Longrightarrow> r \<le> shape img ! axis"
  shows "conv img sigma order trunc mode axis
       = Inr \<lparr>shape = shape img,
              val = \<lambda>q. sum_list (map (\<lambda>k. kern ! k
                          * padded img mode (\<lambda>a. if a = axis then r else 0) (q[axis := q ! axis + k]))
                        [0..<length kern])\<rparr>"
proof -
  define amount where "amount = (\<lambda>a. if a = axis then r else 0)"
  define k where "k = length (shape img)"
  define pd where "pd = rev (fold (\<lambda>idx pd. pd[idx := r]) [2 * axis..<2 * axis + 2]
                                  (replicate (2 * k) 0))"
  have half: "length kern div 2 = r" by (simp add: len)
  have am: "map (pad_amount pd (length (shape img))) [0..<length (shape img)]
          = map (\<lambda>a. (amount a, amount a)) [0..<length (shape img)]"
    unfolding pd_def k_def conv_amounts [OF ax]
    by (rule map_cong) (simp_all add: amount_def)
  have r1: "mode = ''reflect'' \<Longrightarrow> \<forall>a < length (shape img). amount a < shape img ! a"
    using refl by (simp add: amount_def)
  have c1: "mode = ''circular'' \<Longrightarrow> \<forall>a < length (shape img). amount a \<le> shape img ! a"
    using circ by (simp add: amount_def)
  define P where "P = \<lparr>shape = map (\<lambda>a. shape img ! a + 2 * amount a) [0..<length (shape img)],
              val = padded img mode amount\<rparr>"
  have pad: "pad img pd mode = Inr P"
    unfolding P_def by (rule pad_eq [OF am mode r1 c1])
  have Pax: "shape P ! axis = shape img ! axis + 2 * r"
    using ax by (simp add: P_def amount_def)
  have sh: "(shape P)[axis := shape P ! axis - length kern + 1] = shape img"
    unfolding Pax len using ax pos
    by (intro nth_equalityI) (auto simp: P_def amount_def nth_list_update)
  have cf: "convfn P kern axis
          = Inr \<lparr>shape = shape img,
                 val = \<lambda>q. sum_list (map (\<lambda>k. kern ! k * val P (q[axis := q ! axis + k]))
                                     [0..<length kern])\<rparr>"
    unfolding convfn_def sh using pos by (simp add: Pax len)
  show ?thesis
    unfolding conv_def kern then_do_def Let_def half ndim_def
    using pad cf
    by (simp add: pd_def k_def P_def amount_def half)
qed

lemma conv_radius1_ok:
  assumes "0 < sigma" and "\<lceil>sigma * trunc\<rceil> = 1" and "order \<in> {0, 1, 2}"
    and "axis < length (shape img)"
    and "\<forall>a < length (shape img). 2 \<le> shape img ! a"
    and "mode \<in> set [''constant'', ''reflect'', ''replicate'', ''circular'']"
  shows "\<exists>t. conv img sigma order trunc mode axis = Inr t \<and> shape t = shape img"
proof -
  from kernel_radius1 [OF assms(1-3)] obtain kern
    where k: "gaussian_kernel_1d sigma order trunc = Inr kern" "length kern = 2 * 1 + 1"
    by blast
  have n: "2 \<le> shape img ! axis" using assms(4,5) by simp
  have "conv img sigma order trunc mode axis
       = Inr \<lparr>shape = shape img,
              val = \<lambda>q. sum_list (map (\<lambda>k. kern ! k
                          * padded img mode (\<lambda>a. if a = axis then 1 else 0) (q[axis := q ! axis + k]))
                        [0..<length kern])\<rparr>"
  proof (rule conv_eq [OF k assms(4) _ assms(6)])
    show "0 < shape img ! axis" using n by simp
    show "1 < shape img ! axis \<and> (\<forall>a<length (shape img). 0 < shape img ! a)"
      using n assms(5) by (auto intro: less_le_trans [of 0 2])
    show "1 \<le> shape img ! axis" using n by simp
  qed
  then show ?thesis by simp
qed

lemma gaussian_filter_radius1_ok:
  assumes "0 < sigma" and "\<lceil>sigma * trunc\<rceil> = 1" and "set os \<subseteq> {0, 1, 2}"
    and "length os = length (shape img)" and "length (shape img) \<in> {1, 2, 3}"
    and "\<forall>a < length (shape img). 2 \<le> shape img ! a"
    and "mode \<in> set [''constant'', ''reflect'', ''replicate'', ''circular'']"
  shows "\<exists>t. gaussian_filter img sigma (OrderList os) mode trunc = Inr t \<and> shape t = shape img"
proof -
  have "\<exists>t. foldM (\<lambda>(axis, derivative_order) img.
                        conv img sigma derivative_order trunc mode axis)
                 (enumerate 0 os) img = Inr t \<and> shape t = shape img"
  proof (rule foldM_ok [where P = "\<lambda>t :: real tensor. shape t = shape img"])
    fix x and s :: "real tensor" assume x: "x \<in> set (enumerate 0 os)" and s: "shape s = shape img"
    obtain axis order where xo: "x = (axis, order)" by (cases x)
    from x xo have ax: "axis < length os" and o: "order \<in> set os"
      by (auto simp: in_set_enumerate_eq)
    from o assms(3) have o': "order \<in> {0, 1, 2}" by blast
    from conv_radius1_ok [OF assms(1,2) o', of axis s mode] ax assms(4,6,7) s
    show "\<exists>s'. (case x of (axis, derivative_order) \<Rightarrow> \<lambda>img.
                   conv img sigma derivative_order trunc mode axis) s = Inr s'
               \<and> shape s' = shape img"
      by (simp add: xo)
  qed simp
  then show ?thesis
    using assms(4,5) by (auto simp: gaussian_filter_def ndim_def then_do_def Let_def)
qed

lemma hessian_2d_radius1_ok:
  assumes "0 < sigma" and "\<lceil>sigma * trunc\<rceil> = 1"
    and "shape img = [n0, n1]" and "2 \<le> n0" and "2 \<le> n1"
    and "mode \<in> set [''constant'', ''reflect'', ''replicate'', ''circular'']"
  shows "\<exists>xx xy yy. hessian_2d img sigma trunc mode = Inr [xx, xy, yy]"
proof -
  have sh: "\<forall>a < length (shape img). 2 \<le> shape img ! a"
    using assms(3-5) by (auto simp: nth_Cons split: nat.splits)
  have l: "length (shape img) \<in> {1, 2, 3}" using assms(3) by simp
  have g: "\<exists>t. gaussian_filter img sigma (OrderList os) mode trunc = Inr t"
    if "set os \<subseteq> {0, 1, 2}" "length os = 2" for os
    using gaussian_filter_radius1_ok [OF assms(1,2) that(1) _ l sh assms(6)] that(2) assms(3)
    by auto
  from g [of "[0, 2]"] g [of "[2, 0]"] g [of "[1, 1]"] show ?thesis
    by (auto simp: hessian_2d_def then_do_def)
qed

lemma radius_quarter: "\<lceil>1 / 4 * 4 :: real\<rceil> = 1"
  by simp

lemma hessian_2d_test_image:
  "\<exists>xx xy yy. hessian_2d test_image_2d (1 / 4) 4 ''reflect'' = Inr [xx, xy, yy]"
  by (rule hessian_2d_radius1_ok [OF _ radius_quarter, of _ 2 2])
     (simp_all add: test_image_2d_def)

lemma hessian_eigenvalues_test_image:
  "\<exists>E. hessian_eigenvalues test_image_2d (1 / 4) 4 ''reflect'' = Inr E"
proof -
  from hessian_2d_test_image obtain xx xy yy
    where "hessian_2d test_image_2d (1 / 4) 4 ''reflect'' = Inr [xx, xy, yy]" by blast
  then show ?thesis
    by (simp add: hessian_eigenvalues_def hessian_def then_do_def ndim_def test_image_2d_def)
qed

section \<open>The Hessian as a matrix\<close>




section \<open>The order of the Hessian eigenvalues\<close>









section \<open>The range of the Frangi response\<close>

lemma frangi_response_bounds:
  assumes "0 < eps"
  shows "0 \<le> frangi_response r s alpha beta gamma_t eps"
    and "frangi_response r s alpha beta gamma_t eps < 1"
proof -
  obtain r_a r_b where r: "r = (r_a, r_b)" by (cases r)
  define f1 where "f1 = 1 - (case r_a of None \<Rightarrow> 0 | Some r_a \<Rightarrow> exp (- (r_a\<^sup>2) / (2 * alpha\<^sup>2)))"
  define f2 where "f2 = exp (- (r_b\<^sup>2) / (2 * beta\<^sup>2 + eps))"
  define f3 where "f3 = 1 - exp (- (s\<^sup>2) / (2 * gamma_t\<^sup>2 + eps))"
  have eq: "frangi_response r s alpha beta gamma_t eps = f1 * f2 * f3"
    by (simp add: frangi_response_def r f1_def f2_def f3_def Let_def)
  have "- (r_a'\<^sup>2) / (2 * alpha\<^sup>2) \<le> 0" for r_a' :: real
    by (simp add: divide_nonpos_nonneg)
  then have f1: "0 \<le> f1" "f1 \<le> 1"
    by (auto simp: f1_def split: option.splits)
  have b: "0 < 2 * beta\<^sup>2 + eps" using assms by (simp add: add_nonneg_pos)
  have g: "0 < 2 * gamma_t\<^sup>2 + eps" using assms by (simp add: add_nonneg_pos)
  have "- (r_b\<^sup>2) / (2 * beta\<^sup>2 + eps) \<le> 0"
    using b by (simp add: divide_nonpos_pos)
  then have f2: "0 \<le> f2" "f2 \<le> 1" by (simp_all add: f2_def)
  have "- (s\<^sup>2) / (2 * gamma_t\<^sup>2 + eps) \<le> 0"
    using g by (simp add: divide_nonpos_pos)
  then have f3: "0 \<le> f3" "f3 < 1" by (simp_all add: f3_def)
  have f12: "0 \<le> f1 * f2" "f1 * f2 \<le> 1"
    using f1 f2 by (simp_all add: mult_le_one)
  show "0 \<le> frangi_response r s alpha beta gamma_t eps"
    unfolding eq using f12 f3 by simp
  have "f1 * f2 * f3 \<le> 1 * f3"
    using f12 f3 by (intro mult_right_mono) simp_all
  then show "frangi_response r s alpha beta gamma_t eps < 1"
    unfolding eq using f3 by simp
qed

lemma frangi_step_bounds:
  assumes "0 < eps" and "frangi_step he img alpha beta gamma eps sigma fm = Inr fm'"
    and "\<forall>p. 0 \<le> val fm p \<and> val fm p < 1"
  shows "\<forall>p. 0 \<le> val fm' p \<and> val fm' p < 1"
  using assms(2,3)
  by (auto simp: frangi_step_def then_do_Inr Let_def maximum_def max_def
      frangi_response_bounds [OF assms(1)])

lemma frangi_step_mono:
  assumes "frangi_step he img alpha beta gamma eps sigma fm = Inr fm'"
    and "\<forall>p. val lo p \<le> val fm p"
  shows "\<forall>p. val lo p \<le> val fm' p"
  using assms
  by (auto simp: frangi_step_def then_do_Inr Let_def maximum_def le_max_iff_disj)

lemma frangi_test_image:
  "\<exists>out. frangi test_image_2d (1, 10) 2 (Some ss) (1 / 2) (1 / 2) None (1 / 10 ^ 10) = Inr out"
  if "set ss \<subseteq> {1 / 4}"
proof -
  let ?f = "frangi_step (\<lambda>img sigma. hessian_eigenvalues img sigma 4 ''reflect'') test_image_2d
              (1 / 2) (1 / 2) None (1 / 10 ^ 10)"
  have "\<exists>out. foldM ?f ss (zeros_like test_image_2d) = Inr out \<and> True"
  proof (rule foldM_ok [where P = "\<lambda>t. True"])
    fix x and s :: "real tensor" assume "x \<in> set ss"
    with that have x: "x = 1 / 4" by auto
    from hessian_eigenvalues_test_image show "\<exists>s'. ?f x s = Inr s' \<and> True"
      by (auto simp: frangi_step_def then_do_def Let_def x)
  qed simp
  moreover have "\<not> list_ex (\<lambda>sigma. sigma < 0) ss"
    using that by (auto simp: list_ex_iff)
  ultimately show ?thesis
    by (simp add: frangi_def frangi_with_def then_do_def ndim_def test_image_2d_def)
qed

text \<open>
  Where \<open>frangi\<close> returns a response, for \<open>eps > 0\<close> and over the real numbers: the
  response is at least 0 and less than 1 at every pixel; and scanning further sigmas
  after the sigmas \<open>ss\<close> does not lower the running maximum at any pixel.
\<close>

lemma frangi_bounded_and_monotone:
  assumes "0 < eps"
  shows "(frangi img sigma_range scale_step sigmas alpha beta gamma eps = Inr out
            \<longrightarrow> (\<forall>p. 0 \<le> val out p \<and> val out p < 1))
       \<and> (frangi img sigma_range scale_step (Some ss) alpha beta gamma eps = Inr out1
          \<and> frangi img sigma_range scale_step (Some (ss @ extra)) alpha beta gamma eps = Inr out2
            \<longrightarrow> (\<forall>p. val out1 p \<le> val out2 p))"
proof (intro conjI impI)
  let ?f = "frangi_step (\<lambda>img sigma. hessian_eigenvalues img sigma 4 ''reflect'') img alpha beta gamma eps"
  assume "frangi img sigma_range scale_step sigmas alpha beta gamma eps = Inr out"
  then obtain l where l: "foldM ?f l (zeros_like img) = Inr out"
    by (auto simp: frangi_def frangi_with_def then_do_Inr split: if_splits)
  show "\<forall>p. 0 \<le> val out p \<and> val out p < 1"
  proof (rule foldM_invariant [where f = ?f and P = "\<lambda>t. \<forall>p. 0 \<le> val t p \<and> val t p < 1", OF _ _ l])
    show "\<forall>p. 0 \<le> val (zeros_like img) p \<and> val (zeros_like img) p < 1"
      by (simp add: zeros_like_def)
  qed (rule frangi_step_bounds [OF assms])
next
  let ?f = "frangi_step (\<lambda>img sigma. hessian_eigenvalues img sigma 4 ''reflect'') img alpha beta gamma eps"
  assume a: "frangi img sigma_range scale_step (Some ss) alpha beta gamma eps = Inr out1
    \<and> frangi img sigma_range scale_step (Some (ss @ extra)) alpha beta gamma eps = Inr out2"
  then have 1: "foldM ?f ss (zeros_like img) = Inr out1"
    by (auto simp: frangi_def frangi_with_def then_do_Inr split: if_splits)
  from a have "foldM ?f (ss @ extra) (zeros_like img) = Inr out2"
    by (auto simp: frangi_def frangi_with_def then_do_Inr split: if_splits)
  with 1 have 2: "foldM ?f extra out1 = Inr out2"
    by (simp add: foldM_append then_do_def)
  show "\<forall>p. val out1 p \<le> val out2 p"
  proof (rule foldM_invariant [where f = ?f and P = "\<lambda>t. \<forall>p. val out1 p \<le> val t p", OF _ _ 2])
    show "\<forall>p. val out1 p \<le> val out1 p" by simp
  qed (rule frangi_step_mono)
qed

lemma frangi_bounded_and_monotone_at_quarter:
  "\<exists>out1 out2.
     frangi test_image_2d (1, 10) 2 (Some [1 / 4]) (1 / 2) (1 / 2) None (1 / 10 ^ 10) = Inr out1
   \<and> frangi test_image_2d (1, 10) 2 (Some ([1 / 4] @ [1 / 4])) (1 / 2) (1 / 2) None (1 / 10 ^ 10)
       = Inr out2
   \<and> (\<forall>p. 0 \<le> val out1 p \<and> val out1 p < 1)
   \<and> (\<forall>p. val out1 p \<le> val out2 p)"
proof -
  have eps: "(0::real) < 1 / 10 ^ 10" by simp
  from frangi_test_image [of "[1 / 4]"] obtain out1
    where 1: "frangi test_image_2d (1, 10) 2 (Some [1 / 4]) (1 / 2) (1 / 2) None (1 / 10 ^ 10)
               = Inr out1" by auto
  from frangi_test_image [of "[1 / 4] @ [1 / 4]"] obtain out2
    where 2: "frangi test_image_2d (1, 10) 2 (Some ([1 / 4] @ [1 / 4])) (1 / 2) (1 / 2) None
                (1 / 10 ^ 10) = Inr out2" by auto
  from frangi_bounded_and_monotone [OF eps, of test_image_2d "(1, 10)" 2 "Some [1 / 4]"
      "1 / 2" "1 / 2" None out1 "[1 / 4]" out1 "[1 / 4]" out2] 1 2
  show ?thesis by blast
qed

lemma kernel_sigma_zero: "gaussian_kernel_1d 0 0 trunc = Inl NonFinite"
  by (simp add: gaussian_kernel_1d_def arange_def then_do_def checked_def)

lemma hessian_2d_sigma_zero:
  assumes "ndim img = 4"
  shows "hessian_2d img 0 trunc mode = Inl NonFinite"
proof -
  have "gaussian_filter img 0 (OrderList [0, 2]) mode trunc = Inl NonFinite"
    using assms
    by (simp add: gaussian_filter_def conv_def kernel_sigma_zero then_do_def)
  then show ?thesis
    by (simp add: hessian_2d_def then_do_def)
qed

lemma hessian_3d_sigma_zero: "hessian_3d img 0 trunc mode = Inl NonFinite"
  by (simp add: hessian_3d_def kernel_sigma_zero then_do_def)

lemma hessian_eigenvalues_sigma_zero:
  assumes "ndim img = 4 \<or> ndim img = 5"
  shows "hessian_eigenvalues img 0 trunc mode = Inl NonFinite"
  using assms
  by (auto simp: hessian_eigenvalues_def hessian_def hessian_2d_sigma_zero
      hessian_3d_sigma_zero then_do_def)

lemma frangi_sigma_zero:
  assumes "ndim img = 4 \<or> ndim img = 5" and "\<not> list_ex (\<lambda>sigma. sigma < 0) ss"
  shows "frangi img sigma_range scale_step (Some (0 # ss)) alpha beta gamma eps = Inl NonFinite"
  using assms
  by (auto simp: frangi_def frangi_with_def frangi_step_def then_do_def
      hessian_eigenvalues_sigma_zero)

text \<open>
  Claim C5 fails on the code at \<open>sigma = 0\<close>. The check \<open>sigmas < 0.0\<close> lets a zero sigma
  pass, although its message asks for positive sigmas; the kernel radius is then 0 and
  the kernel of order 0 is \<open>exp(-0/0) / 0\<close>, so the Hessian, the eigenvalues and the
  response are \<open>nan\<close> at every pixel, which \<open>torch.maximum\<close> keeps in the running
  maximum. On the 2D test image with the sigmas \<open>[0]\<close> and the default parameters,
  \<open>frangi\<close> raises no error and returns no response in \<open>[0, 1)\<close>.
\<close>

theorem frangi_sigma_zero_not_finite:
  "frangi test_image_2d (1, 10) 2 (Some [0]) (1 / 2) (1 / 2) None (1 / 10 ^ 10) = Inl NonFinite
   \<and> frangi test_image_2d (1, 10) 2 (Some [0]) (1 / 2) (1 / 2) None (1 / 10 ^ 10)
       \<noteq> Inl (ValueError sigma_message)
   \<and> \<not> (\<exists>out. frangi test_image_2d (1, 10) 2 (Some [0]) (1 / 2) (1 / 2) None (1 / 10 ^ 10)
                = Inr out)"
proof -
  have "frangi test_image_2d (1, 10) 2 (Some [0]) (1 / 2) (1 / 2) None (1 / 10 ^ 10)
          = Inl NonFinite"
    by (rule frangi_sigma_zero) (simp_all add: ndim_def test_image_2d_def)
  then show ?thesis by simp
qed

section \<open>The fused 3D Hessian against separate passes\<close>

lemma upt_3: "[0..<3] = [0, 1, 2]"
  by code_simp

lemma zero_pad_conv_eq:
  assumes "length (shape x) = 3" and "axis < 3"
    and "length kern \<le> shape x ! axis + 2 * [p0, p1, p2] ! axis"
  shows "then_do (pad x (concat (map (\<lambda>p. [p, p]) (rev [p0, p1, p2]))) ''constant'')
           (\<lambda>x. convfn x kern axis)
       = Inr (zero_pad_conv [p0, p1, p2] axis (x, kern))"
proof -
  have am: "map (pad_amount (concat (map (\<lambda>p. [p, p]) (rev [p0, p1, p2]))) (length (shape x)))
              [0..<length (shape x)]
          = map (\<lambda>a. ([p0, p1, p2] ! a, [p0, p1, p2] ! a)) [0..<length (shape x)]"
    by (simp add: assms(1) upt_3 pad_amount_def)
  have pad: "pad x (concat (map (\<lambda>p. [p, p]) (rev [p0, p1, p2]))) ''constant''
       = Inr \<lparr>shape = map (\<lambda>a. shape x ! a + 2 * [p0, p1, p2] ! a) [0..<length (shape x)],
              val = padded x ''constant'' (\<lambda>a. [p0, p1, p2] ! a)\<rparr>"
    by (rule pad_eq [OF am]) simp_all
  have ax: "map (\<lambda>a. shape x ! a + 2 * [p0, p1, p2] ! a) [0..<3] ! axis
          = shape x ! axis + 2 * [p0, p1, p2] ! axis"
    using assms(2) by simp
  show ?thesis
    unfolding pad then_do_def
    using assms(3)
    by (simp add: convfn_def assms(1) ax zero_pad_conv_def Let_def del: upt_Suc)
qed

lemma mapM_Inr:
  assumes "\<And>x. x \<in> set xs \<Longrightarrow> f x = Inr (g x)"
  shows "mapM f xs = Inr (map g xs)"
  using assms by (induction xs) (simp_all add: then_do_def)

lemma conv3d_groups_eq:
  assumes "axis < 3"
    and "\<And>x kern. (x, kern) \<in> set (zip xs weight) \<Longrightarrow>
           length (shape x) = 3 \<and> length kern \<le> shape x ! axis + 2 * [p0, p1, p2] ! axis"
  shows "conv3d_groups xs weight axis [p0, p1, p2]
       = Inr (map (zero_pad_conv [p0, p1, p2] axis) (zip xs weight))"
  unfolding conv3d_groups_def
proof (rule mapM_Inr)
  fix xk assume xk: "xk \<in> set (zip xs weight)"
  obtain x kern where e: "xk = (x, kern)" by (cases xk)
  from assms(2) [of x kern] xk e
  have "length (shape x) = 3" "length kern \<le> shape x ! axis + 2 * [p0, p1, p2] ! axis"
    by simp_all
  from zero_pad_conv_eq [OF this(1) assms(1) this(2)]
  show "(case xk of (x, kern) \<Rightarrow>
           then_do (pad x (concat (map (\<lambda>p. [p, p]) (rev [p0, p1, p2]))) ''constant'')
             (\<lambda>x. convfn x kern axis))
        = Inr (zero_pad_conv [p0, p1, p2] axis xk)"
    by (simp add: e)
qed

lemma zero_pad_conv_shape:
  "shape (zero_pad_conv padding axis (x, kern))
     = (map (\<lambda>a. shape x ! a + 2 * padding ! a) [0..<3])
         [axis := shape x ! axis + 2 * padding ! axis - length kern + 1]"
  by (simp add: zero_pad_conv_def)

lemma zero_pad_conv_val:
  "val (zero_pad_conv padding axis (x, kern)) q
     = sum_list (map (\<lambda>k. kern ! k
           * padded x ''constant'' (\<lambda>a. padding ! a) (q[axis := q ! axis + k]))
         [0..<length kern])"
  by (simp add: zero_pad_conv_def)

lemma padded_constant_outside:
  assumes "a < length (shape x)" and "q ! a < amount a"
  shows "padded x ''constant'' amount q = 0"
proof -
  have "pad_index ''constant'' (shape x ! a) (amount a) (q ! a) = None"
    using assms(2) by (simp add: pad_index_def)
  then have "None \<in> set (map (\<lambda>a. pad_index ''constant'' (shape x ! a) (amount a) (q ! a))
                          [0..<length (shape x)])"
    using assms(1) by (auto simp: image_iff intro!: bexI [of _ a])
  then show ?thesis
    by (simp only: padded_def Let_def if_True)
qed

lemma zip_memD: "(x, y) \<in> set (zip xs ys) \<Longrightarrow> x \<in> set xs \<and> y \<in> set ys"
  by (auto dest: set_zip_leftD set_zip_rightD)

lemma stage_shape:
  assumes "\<forall>x \<in> set xs. shape x = s" and "\<forall>k \<in> set ws. length k = n"
  shows "\<forall>y \<in> set (map (zero_pad_conv P axis) (zip xs ws)).
           shape y = (map (\<lambda>a. s ! a + 2 * P ! a) [0..<3])[axis := s ! axis + 2 * P ! axis - n + 1]"
  using assms by (auto simp: zero_pad_conv_shape dest!: zip_memD)

lemma stage_border_zero:
  assumes "length (shape x) = 3" and "a < 3" and "a \<noteq> axis" and "q ! a < P ! a"
  shows "val (zero_pad_conv P axis (x, kern)) q = 0"
proof -
  have "padded x ''constant'' (\<lambda>a. P ! a) (q[axis := q ! axis + k]) = 0" for k
    using assms by (intro padded_constant_outside [of a]) simp_all
  then show ?thesis
    by (simp add: zero_pad_conv_val)
qed

lemma hessian_3d_test_image:
  "\<exists>H. hessian_3d test_image_3d 1 1 mode = Inr H \<and> val (H ! 0) [0, 0, 0] = 0"
proof -
  define g0 where "g0 = [gauss 1 1, gauss 1 0, gauss 1 1]"
  define g1 where "g1 = [1 / 2, 0, - 1 / 2 :: real]"
  define g2 where "g2 = [1, - 2, 1 :: real]"
  have k0: "gaussian_kernel_1d 1 0 1 = Inr g0"
    unfolding g0_def by (rule kernel0_radius1) simp_all
  have k1: "gaussian_kernel_1d 1 1 1 = Inr g1"
    unfolding g1_def by (rule kernel1_radius1) simp_all
  have k2: "gaussian_kernel_1d 1 2 1 = Inr g2"
    unfolding g2_def by (rule kernel2_radius1) simp_all
  have l: "length g0 = 3" "length g1 = 3" "length g2 = 3"
    by (simp_all add: g0_def g1_def g2_def)
  define kx where "kx = [g2, g1, g1, g0, g0, g0]"
  define ky where "ky = [g0, g1, g0, g2, g1, g0]"
  define kz where "kz = [g0, g0, g1, g0, g1, g2]"
  have lk: "\<forall>k \<in> set kx. length k = 3" "\<forall>k \<in> set ky. length k = 3" "\<forall>k \<in> set kz. length k = 3"
    by (simp_all add: kx_def ky_def kz_def l)
  define S0 where "S0 = replicate 6 test_image_3d"
  define S1 where "S1 = map (zero_pad_conv [1, 0, 0] 2) (zip S0 kx)"
  define S2 where "S2 = map (zero_pad_conv [0, 1, 0] 1) (zip S1 ky)"
  define S3 where "S3 = map (zero_pad_conv [0, 0, 1] 0) (zip S2 kz)"
  have sh0: "\<forall>x \<in> set S0. shape x = [2, 2, 3]"
    by (simp add: S0_def test_image_3d_def)
  have sh1: "\<forall>x \<in> set S1. shape x = [4, 2, 1]"
    using stage_shape [OF sh0 lk(1), of "[1, 0, 0]" 2] by (simp add: S1_def upt_3)
  have sh2: "\<forall>x \<in> set S2. shape x = [4, 2, 1]"
    using stage_shape [OF sh1 lk(2), of "[0, 1, 0]" 1] by (simp add: S2_def upt_3)
  have c1: "conv3d_groups S0 kx 2 [1, 0, 0] = Inr S1"
    unfolding S1_def using sh0 lk(1)
    by (intro conv3d_groups_eq) (auto dest!: zip_memD)
  have c2: "conv3d_groups S1 ky 1 [0, 1, 0] = Inr S2"
    unfolding S2_def using sh1 lk(2)
    by (intro conv3d_groups_eq) (auto dest!: zip_memD)
  have c3: "conv3d_groups S2 kz 0 [0, 0, 1] = Inr S3"
    unfolding S3_def using sh2 lk(3)
    by (intro conv3d_groups_eq) (auto dest!: zip_memD)
  have H: "hessian_3d test_image_3d 1 1 mode = Inr S3"
    unfolding hessian_3d_def k0 k1 k2 then_do_def
    using c1 c2 c3 by (simp add: Let_def l kx_def ky_def kz_def S0_def)
  have len: "length S2 = 6"
    by (simp add: S2_def S1_def S0_def kx_def ky_def)
  then have "S2 ! 0 \<in> set S2" by (intro nth_mem) simp
  with sh2 have s20: "length (shape (S2 ! 0)) = 3" by simp
  have "S3 ! 0 = zero_pad_conv [0, 0, 1] 0 (S2 ! 0, g0)"
    using len by (simp add: S3_def kz_def)
  moreover have "val (zero_pad_conv [0, 0, 1] 0 (S2 ! 0, g0)) [0, 0, 0] = 0"
    by (rule stage_border_zero [OF s20, of 2]) simp_all
  ultimately show ?thesis using H by simp
qed

lemma pad_index_reflect: "pad_index ''reflect'' n left j = Some (reflect_index n left j)"
  by (simp add: reflect_index_def pad_index_def Let_def)

lemma padded_reflect_3:
  assumes "shape x = [n0, n1, n2]"
  shows "padded x ''reflect'' amount [i, j, k]
       = val x [reflect_index n0 (amount 0) i, reflect_index n1 (amount (Suc 0)) j,
                reflect_index n2 (amount (Suc (Suc 0))) k]"
  by (simp add: padded_def assms pad_index_reflect Let_def)

lemma reflect_index_inside: "j < n \<Longrightarrow> reflect_index n 0 j = j"
  by (simp add: reflect_index_def pad_index_def Let_def)

lemma reflect_index_values:
  "reflect_index n (Suc 0) 0 = 1"
  "1 < n \<Longrightarrow> reflect_index n (Suc 0) (Suc 0) = 0"
  "2 < n \<Longrightarrow> reflect_index n (Suc 0) (Suc (Suc 0)) = 1"
  "reflect_index 2 (Suc 0) (Suc (Suc 0)) = 1"
  by (simp_all add: reflect_index_def pad_index_def Let_def)

lemma gaussian_filter_test_image:
  "\<exists>G. gaussian_filter test_image_3d 1 (OrderList [0, 0, 2]) ''reflect'' 1 = Inr G
     \<and> val G [0, 0, 0] = - 2 * (gauss 1 0)\<^sup>2"
proof -
  define g0 where "g0 = [gauss 1 1, gauss 1 0, gauss 1 1]"
  define g2 where "g2 = [1, - 2, 1 :: real]"
  have k0: "gaussian_kernel_1d 1 0 1 = Inr g0"
    unfolding g0_def by (rule kernel0_radius1) simp_all
  have k2: "gaussian_kernel_1d 1 2 1 = Inr g2"
    unfolding g2_def by (rule kernel2_radius1) simp_all
  have l: "length g0 = 2 * 1 + 1" "length g2 = 2 * 1 + 1"
    by (simp_all add: g0_def g2_def)
  define T1 where "T1 = \<lparr>shape = shape test_image_3d,
       val = \<lambda>q. sum_list (map (\<lambda>k. g0 ! k
                 * padded test_image_3d ''reflect'' (\<lambda>a. if a = 0 then 1 else 0) (q[0 := q ! 0 + k]))
               [0..<length g0])\<rparr>"
  define T2 where "T2 = \<lparr>shape = shape T1,
       val = \<lambda>q. sum_list (map (\<lambda>k. g0 ! k
                 * padded T1 ''reflect'' (\<lambda>a. if a = Suc 0 then 1 else 0)
                     (q[Suc 0 := q ! Suc 0 + k]))
               [0..<length g0])\<rparr>"
  define T3 where "T3 = \<lparr>shape = shape T2,
       val = \<lambda>q. sum_list (map (\<lambda>k. g2 ! k
                 * padded T2 ''reflect'' (\<lambda>a. if a = Suc (Suc 0) then 1 else 0)
                     (q[Suc (Suc 0) := q ! Suc (Suc 0) + k]))
               [0..<length g2])\<rparr>"
  have sh: "shape test_image_3d = [2, 2, 3]" "shape T1 = [2, 2, 3]" "shape T2 = [2, 2, 3]"
    by (simp_all add: test_image_3d_def T1_def T2_def)
  have c1: "conv test_image_3d 1 0 1 ''reflect'' 0 = Inr T1"
    unfolding T1_def by (rule conv_eq [OF k0 l(1)]) (auto simp: sh less_Suc_eq numeral_3_eq_3)
  have c2: "conv T1 1 0 1 ''reflect'' (Suc 0) = Inr T2"
    unfolding T2_def by (rule conv_eq [OF k0 l(1)]) (auto simp: sh less_Suc_eq numeral_3_eq_3)
  have c3: "conv T2 1 2 1 ''reflect'' (Suc (Suc 0)) = Inr T3"
    unfolding T3_def by (rule conv_eq [OF k2 l(2)]) (auto simp: sh less_Suc_eq numeral_3_eq_3)
  have G: "gaussian_filter test_image_3d 1 (OrderList [0, 0, 2]) ''reflect'' 1 = Inr T3"
    by (simp add: gaussian_filter_def ndim_def sh then_do_def c1 c2 c3)
  have v1: "val T1 [0, j, k] = 2 * gauss 1 1 * val test_image_3d [1, j, k]
       + gauss 1 0 * val test_image_3d [0, j, k]" if "j < 2" "k < 3" for j k
    unfolding T1_def using that
    by (simp add: g0_def padded_reflect_3 [OF sh(1)] reflect_index_inside reflect_index_values)
  have v2: "val T2 [0, 0, k] = 2 * gauss 1 1 * val T1 [0, 1, k]
       + gauss 1 0 * val T1 [0, 0, k]" if "k < 3" for k
    unfolding T2_def using that
    by (simp add: g0_def padded_reflect_3 [OF sh(2)] reflect_index_inside reflect_index_values)
  have v3: "val T3 [0, 0, 0] = 2 * val T2 [0, 0, 1] - 2 * val T2 [0, 0, 0]"
    unfolding T3_def
    by (simp add: g2_def padded_reflect_3 [OF sh(3)] reflect_index_inside reflect_index_values)
  have "val T3 [0, 0, 0] = - 2 * (gauss 1 0)\<^sup>2"
    by (simp add: v3 v2 v1 test_image_3d_def power2_eq_square)
  with G show ?thesis by blast
qed

text \<open>
  Claim C1 fails on the code. \<open>hessian_3d\<close> never reads \<open>mode\<close>: it pads with zeros, and
  it pads the first axis while it convolves along the last one, so its output is zero on
  the border of the last axis. On the \<open>2 x 2 x 3\<close> image that is 1 at the origin and 0
  elsewhere, with \<open>sigma = 1\<close>, \<open>truncate = 1\<close> and the reflect mode, the \<open>xx\<close> component of
  the fused path is 0 at the origin, and \<open>gaussian_filter\<close> with order \<open>[0, 0, 2]\<close> gives
  \<open>-2 g(0)\<^sup>2\<close> there.
\<close>

theorem hessian_3d_differs_from_gaussian_filter:
  "\<exists>H G. hessian_3d test_image_3d 1 1 ''reflect'' = Inr H
     \<and> hessian_3d test_image_3d 1 1 ''constant'' = Inr H
     \<and> gaussian_filter test_image_3d 1 (OrderList [0, 0, 2]) ''reflect'' 1 = Inr G
     \<and> val (H ! 0) [0, 0, 0] = 0
     \<and> val G [0, 0, 0] = - 2 * (gauss 1 0)\<^sup>2
     \<and> val (H ! 0) [0, 0, 0] \<noteq> val G [0, 0, 0]"
proof -
  from hessian_3d_test_image [of "''reflect''"] obtain H
    where H: "hessian_3d test_image_3d 1 1 ''reflect'' = Inr H" "val (H ! 0) [0, 0, 0] = 0"
    by blast
  have H': "hessian_3d test_image_3d 1 1 ''constant'' = Inr H"
    using H(1) by (simp add: hessian_3d_def)
  from gaussian_filter_test_image obtain G
    where G: "gaussian_filter test_image_3d 1 (OrderList [0, 0, 2]) ''reflect'' 1 = Inr G"
      "val G [0, 0, 0] = - 2 * (gauss 1 0)\<^sup>2"
    by blast
  have "0 < gauss 1 0" by (rule gauss_pos) simp
  then have "val (H ! 0) [0, 0, 0] \<noteq> val G [0, 0, 0]"
    by (simp add: H(2) G(2))
  with H H' G show ?thesis by blast
qed

end
